theory Spec2Isabelle
  imports Complex_Main
begin

section \<open>Errors\<close>

text \<open>
  The Python exceptions the modelled code can raise. A function that may raise returns
  \<open>py_error + 'a\<close>, with \<open>Inl\<close> for the exception.
\<close>

datatype py_error = KeyError | IndexError | ValueError | FileNotFoundError

section \<open>Label codec: \<open>label_to_num\<close> (train.py, lines 70-77)\<close>

text \<open>
  The disk as far as \<open>label_to_num\<close> touches it: the unpickled content of
  \<^verbatim>\<open>dict_label_to_num.pkl\<close> (\<open>None\<close> when the file does not exist) and a counter of
  how many times \<^verbatim>\<open>pickle.load\<close> has read it. The counter is bookkeeping of the model;
  the file is opened with mode \<^verbatim>\<open>'rb'\<close>, so its content is never changed.
\<close>

record disk =
  dict_label_to_num_pkl :: "(string \<rightharpoonup> int) option"
  pickle_loads :: nat

text \<open>
  The loop \<^verbatim>\<open>for v in label: num_label.append(dict_label_to_num[v])\<close>. A missing key
  raises \<open>KeyError\<close> and the list built so far is lost.
\<close>

fun append_loop :: "(string \<rightharpoonup> int) \<Rightarrow> string list \<Rightarrow> int list \<Rightarrow> py_error + int list" where
  "append_loop d [] num_label = Inr num_label"
| "append_loop d (v # vs) num_label =
     (case d v of
        None \<Rightarrow> Inl KeyError
      | Some n \<Rightarrow> append_loop d vs (num_label @ [n]))"

definition label_to_num :: "disk \<Rightarrow> string list \<Rightarrow> (py_error + int list) \<times> disk" where
  "label_to_num dk label =
     (case dict_label_to_num_pkl dk of
        None \<Rightarrow> (Inl FileNotFoundError, dk)
      | Some d \<Rightarrow> (append_loop d label [], dk\<lparr>pickle_loads := pickle_loads dk + 1\<rparr>))"

text \<open>
  The two calls in \<open>train\<close> (lines 96-97): the training labels, then the validation
  labels. Neither call is inside a \<^verbatim>\<open>try\<close>, so an exception of the first ends \<open>train\<close>
  before the second call.
\<close>

definition train_labels ::
  "disk \<Rightarrow> string list \<Rightarrow> string list \<Rightarrow> (py_error + int list \<times> int list) \<times> disk" where
  "train_labels dk train_values dev_values =
     (case label_to_num dk train_values of
        (Inl e, dk1) \<Rightarrow> (Inl e, dk1)
      | (Inr train_label, dk1) \<Rightarrow>
          (case label_to_num dk1 dev_values of
             (Inl e, dk2) \<Rightarrow> (Inl e, dk2)
           | (Inr dev_label, dk2) \<Rightarrow> (Inr (train_label, dev_label), dk2)))"

section \<open>Python lists\<close>

text \<open>
  \<^verbatim>\<open>list.index(x)\<close> is the position of the first element equal to \<open>x\<close>, and
  \<^verbatim>\<open>list.remove(x)\<close> deletes that element; both raise \<open>ValueError\<close> when there is none.
\<close>

fun list_index :: "'a \<Rightarrow> 'a list \<Rightarrow> py_error + nat" where
  "list_index x [] = Inl ValueError"
| "list_index x (y # ys) =
     (if y = x then Inr 0
      else (case list_index x ys of Inl e \<Rightarrow> Inl e | Inr i \<Rightarrow> Inr (Suc i)))"

fun list_remove :: "'a \<Rightarrow> 'a list \<Rightarrow> py_error + 'a list" where
  "list_remove x [] = Inl ValueError"
| "list_remove x (y # ys) =
     (if y = x then Inr ys
      else (case list_remove x ys of Inl e \<Rightarrow> Inl e | Inr zs \<Rightarrow> Inr (y # zs)))"

section \<open>Floating-point values and arrays\<close>

text \<open>
  A float is modelled as an exact rational or NaN: rounding is left out, NaN is kept
  because it is a value the metric code can return. An operation with a NaN operand gives
  NaN and a comparison with NaN is false, as in IEEE arithmetic.

  The array operations of this section are the ones \<open>train.py\<close> calls on NumPy arrays.
  NumPy is not part of the repository; each operation is written out as NumPy defines
  it, exceptions included.
\<close>

datatype npfloat = NaN | Fin rat

fun fl_lift2 :: "(rat \<Rightarrow> rat \<Rightarrow> rat) \<Rightarrow> npfloat \<Rightarrow> npfloat \<Rightarrow> npfloat" where
  "fl_lift2 f (Fin a) (Fin b) = Fin (f a b)"
| "fl_lift2 f NaN b = NaN"
| "fl_lift2 f (Fin a) NaN = NaN"

fun fl_less :: "npfloat \<Rightarrow> npfloat \<Rightarrow> bool" where
  "fl_less (Fin a) (Fin b) = (a < b)"
| "fl_less NaN b = False"
| "fl_less (Fin a) NaN = False"

fun fl_le :: "npfloat \<Rightarrow> npfloat \<Rightarrow> bool" where
  "fl_le (Fin a) (Fin b) = (a \<le> b)"
| "fl_le NaN b = False"
| "fl_le (Fin a) NaN = False"

definition fl_sum :: "npfloat list \<Rightarrow> npfloat" where
  "fl_sum xs = foldr (fl_lift2 (+)) xs (Fin 0)"

text \<open>\<^verbatim>\<open>np.diff(x)\<close>: the list of \<open>x[i+1] - x[i]\<close>.\<close>

definition np_diff :: "npfloat list \<Rightarrow> npfloat list" where
  "np_diff x = map2 (\<lambda>a b. fl_lift2 (-) b a) x (tl x)"

text \<open>\<^verbatim>\<open>np.trapz(y, x)\<close>: the sum of \<open>diff(x) * (y[1:] + y[:-1]) / 2\<close>.\<close>

definition trapz :: "npfloat list \<Rightarrow> npfloat list \<Rightarrow> npfloat" where
  "trapz y x =
     fl_sum (map2 (fl_lift2 (\<lambda>d s. d * s / 2)) (np_diff x) (map2 (fl_lift2 (+)) (tl y) (butlast y)))"

text \<open>\<^verbatim>\<open>np.average(a)\<close> of a one-dimensional array: the sum over the number of entries.\<close>

definition average :: "npfloat list \<Rightarrow> npfloat" where
  "average a = fl_lift2 (/) (fl_sum a) (Fin (of_nat (length a)))"

text \<open>
  A two-dimensional array: its number of columns and the list of its rows. The column
  count is kept apart from the rows because an array with no rows still has one.
\<close>

record ndarray2 =
  ncols :: nat
  rows :: "rat list list"

definition wf_ndarray2 :: "ndarray2 \<Rightarrow> bool" where
  "wf_ndarray2 a = list_all (\<lambda>r. length r = ncols a) (rows a)"

text \<open>\<^verbatim>\<open>np.eye(n)\<close>: the identity matrix.\<close>

definition eye :: "nat \<Rightarrow> ndarray2" where
  "eye n = \<lparr>ncols = n, rows = map (\<lambda>i. map (\<lambda>j. if i = j then 1 else 0) [0..<n]) [0..<n]\<rparr>"

text \<open>
  \<^verbatim>\<open>a[idx]\<close> with an integer array \<open>idx\<close>: the rows of \<open>a\<close> at those positions. A
  negative position counts from the end; a position outside \<open>[-n, n)\<close>, for \<open>n\<close> rows,
  raises \<open>IndexError\<close>.
\<close>

definition index_rows :: "ndarray2 \<Rightarrow> int list \<Rightarrow> py_error + ndarray2" where
  "index_rows a idx =
     (let n = int (length (rows a)) in
      if list_all (\<lambda>i. - n \<le> i \<and> i < n) idx
      then Inr \<lparr>ncols = ncols a,
                rows = map (\<lambda>i. rows a ! nat (if i < 0 then i + n else i)) idx\<rparr>
      else Inl IndexError)"

text \<open>
  \<^verbatim>\<open>a.take([c], axis=1).ravel()\<close>: column \<open>c\<close> as a flat array; \<open>IndexError\<close> when the array
  has no such column.
\<close>

definition take_col :: "ndarray2 \<Rightarrow> nat \<Rightarrow> py_error + rat list" where
  "take_col a c = (if c < ncols a then Inr (map (\<lambda>r. r ! c) (rows a)) else Inl IndexError)"

text \<open>
  \<^verbatim>\<open>a.argmax(-1)\<close>: for each row the position of its first maximum; \<open>ValueError\<close> when
  the rows are empty.
\<close>

fun argmax_aux :: "nat \<Rightarrow> rat \<Rightarrow> nat \<Rightarrow> rat list \<Rightarrow> nat" where
  "argmax_aux best_i best_v i [] = best_i"
| "argmax_aux best_i best_v i (x # xs) =
     (if best_v < x then argmax_aux i x (Suc i) xs else argmax_aux best_i best_v (Suc i) xs)"

definition argmax_row :: "rat list \<Rightarrow> nat" where
  "argmax_row r = (case r of [] \<Rightarrow> 0 | x # xs \<Rightarrow> argmax_aux 0 x 1 xs)"

definition argmax_last :: "ndarray2 \<Rightarrow> py_error + int list" where
  "argmax_last a =
     (if ncols a = 0 then Inl ValueError else Inr (map (\<lambda>r. int (argmax_row r)) (rows a)))"

section \<open>The metric functions of scikit-learn\<close>


subsection \<open>\<^verbatim>\<open>f1_score(y_true, y_pred, average="micro", labels=labels)\<close>\<close>

text \<open>
  Modelled from the spec: \<^verbatim>\<open>sklearn.metrics.f1_score\<close> is missing from the sources. For
  each class of \<open>labels\<close> the library counts the examples whose true class it is
  (\<open>true_count\<close>), the examples predicted as it (\<open>pred_count\<close>) and those where both hold
  (\<open>tp_count\<close>); with \<^verbatim>\<open>average="micro"\<close> the three counts are summed over \<open>labels\<close> before
  one precision, one recall and one F1 are computed. A quotient with denominator zero
  is set to 0 (the default \<^verbatim>\<open>zero_division="warn"\<close>). Arrays of different lengths raise
  \<open>ValueError\<close>.
\<close>

definition true_count :: "int list \<Rightarrow> int \<Rightarrow> nat" where
  "true_count y_true l = length (filter (\<lambda>t. t = l) y_true)"

definition pred_count :: "int list \<Rightarrow> int \<Rightarrow> nat" where
  "pred_count y_pred l = length (filter (\<lambda>p. p = l) y_pred)"

definition tp_count :: "int list \<Rightarrow> int list \<Rightarrow> int \<Rightarrow> nat" where
  "tp_count y_true y_pred l = length (filter (\<lambda>(t, p). t = p \<and> t = l) (zip y_true y_pred))"

definition prf_divide :: "nat \<Rightarrow> nat \<Rightarrow> rat" where
  "prf_divide numerator denominator =
     (if denominator = 0 then 0 else of_nat numerator / of_nat denominator)"

definition f1_score_micro :: "int list \<Rightarrow> int list \<Rightarrow> int list \<Rightarrow> py_error + rat" where
  "f1_score_micro y_true y_pred labels =
     (if length y_true \<noteq> length y_pred then Inl ValueError
      else
        let tp = sum_list (map (tp_count y_true y_pred) labels);
            pred = sum_list (map (pred_count y_pred) labels);
            true = sum_list (map (true_count y_true) labels);
            precision = prf_divide tp pred;
            recall = prf_divide tp true;
            denom = precision + recall;
            denom1 = (if denom = 0 then 1 else denom)
        in Inr (2 * precision * recall / denom1))"


subsection \<open>\<^verbatim>\<open>precision_recall_curve(y_true, probas_pred)\<close>\<close>

text \<open>
  Modelled from the spec: \<^verbatim>\<open>sklearn.metrics.precision_recall_curve\<close> is missing from the
  sources. The curve is found by sweeping the decision threshold over the scores: the
  examples are ordered by decreasing score (a stable ascending sort, reversed), one
  threshold is kept per distinct score, and at each threshold the true positives
  (\<open>tps\<close>) and false positives (\<open>fps\<close>) among the examples at or above it are counted.
  Precision is \<open>tps / (tps + fps)\<close> and recall \<open>tps / tps[-1]\<close>. The curve stops at the
  first threshold of full recall, is returned in order of decreasing recall, and ends
  with the point of precision 1 and recall 0.

  The true labels must be a non-empty array with values in \<open>{0, 1}\<close> or in \<open>{-1, 1}\<close>,
  of the length of the scores; otherwise the library raises \<open>ValueError\<close>. The class 1 is
  the positive one.

  When no example is positive, \<open>tps[-1]\<close> is 0 and every recall is \<open>0 / 0\<close>, which is NaN.
  (Later releases of the library set the recall to 1 there instead. No statement of a
  theorem below names the value returned in that case.)
\<close>

definition desc_score_order :: "(rat \<times> rat) list \<Rightarrow> (rat \<times> rat) list" where
  "desc_score_order score_true = rev (sort_key fst score_true)"

fun cumsum_from :: "nat \<Rightarrow> nat list \<Rightarrow> nat list" where
  "cumsum_from a [] = []"
| "cumsum_from a (x # xs) = (a + x) # cumsum_from (a + x) xs"

definition distinct_value_indices :: "rat list \<Rightarrow> nat list" where
  "distinct_value_indices y_score =
     filter (\<lambda>i. y_score ! Suc i \<noteq> y_score ! i) [0..<length y_score - 1]"

definition binary_targets_ok :: "rat list \<Rightarrow> bool" where
  "binary_targets_ok y_true =
     (y_true \<noteq> [] \<and>
      (list_all (\<lambda>y. y = 0 \<or> y = 1) y_true \<or> list_all (\<lambda>y. y = - 1 \<or> y = 1) y_true))"

text \<open>The counts \<open>(fps, tps)\<close> at the thresholds, for arrays that passed the checks.\<close>

definition binary_clf_counts :: "rat list \<Rightarrow> rat list \<Rightarrow> nat list \<times> nat list" where
  "binary_clf_counts y_true y_score =
     (let ordered = desc_score_order (zip y_score y_true);
          y_score1 = map fst ordered;
          y_true1 = map (\<lambda>p. if snd p = 1 then 1 else 0) ordered;
          threshold_idxs = distinct_value_indices y_score1 @ [length y_true1 - 1];
          cs = cumsum_from 0 y_true1;
          tps = map (\<lambda>i. cs ! i) threshold_idxs;
          fps = map2 (\<lambda>i t. 1 + i - t) threshold_idxs tps
      in (fps, tps))"

text \<open>\<^verbatim>\<open>a.searchsorted(v)\<close> on an ascending array: the first position whose entry is at least \<open>v\<close>.\<close>

definition searchsorted :: "nat list \<Rightarrow> nat \<Rightarrow> nat" where
  "searchsorted a v = length (takeWhile (\<lambda>t. t < v) a)"

text \<open>The points \<open>(precision, recall)\<close> of the curve, for arrays that passed the checks.\<close>

definition pr_curve_points :: "rat list \<Rightarrow> rat list \<Rightarrow> npfloat list \<times> npfloat list" where
  "pr_curve_points y_true y_score =
     (let (fps, tps) = binary_clf_counts y_true y_score;
          precision = map2 (\<lambda>t f. Fin (if t + f = 0 then 0 else of_nat t / of_nat (t + f))) tps fps;
          recall = map (\<lambda>t. if last tps = 0 then NaN else Fin (of_nat t / of_nat (last tps))) tps;
          last_ind = searchsorted tps (last tps)
      in (rev (take (Suc last_ind) precision) @ [Fin 1],
          rev (take (Suc last_ind) recall) @ [Fin 0]))"

definition precision_recall_curve ::
  "rat list \<Rightarrow> rat list \<Rightarrow> py_error + npfloat list \<times> npfloat list" where
  "precision_recall_curve y_true probas_pred =
     (if length y_true \<noteq> length probas_pred \<or> \<not> binary_targets_ok y_true then Inl ValueError
      else Inr (pr_curve_points y_true probas_pred))"

subsection \<open>\<^verbatim>\<open>auc(x, y)\<close>\<close>

text \<open>
  Modelled from the spec: \<^verbatim>\<open>sklearn.metrics.auc\<close> is missing from the sources. It is the
  area under the points by the trapezoidal rule. Fewer than two points, arrays of
  different lengths, and an \<open>x\<close> that is neither increasing nor decreasing raise
  \<open>ValueError\<close>; for a decreasing \<open>x\<close> the sign of the area is flipped.
\<close>

definition auc :: "npfloat list \<Rightarrow> npfloat list \<Rightarrow> py_error + npfloat" where
  "auc x y =
     (if length x \<noteq> length y \<or> length x < 2 then Inl ValueError
      else
        let dx = np_diff x in
        if list_ex (\<lambda>d. fl_less d (Fin 0)) dx
        then (if list_all (\<lambda>d. fl_le d (Fin 0)) dx
              then Inr (fl_lift2 (*) (Fin (- 1)) (trapz y x))
              else Inl ValueError)
        else Inr (trapz y x))"

subsection \<open>\<^verbatim>\<open>accuracy_score(y_true, y_pred)\<close>\<close>

text \<open>
  Modelled from the spec: \<^verbatim>\<open>sklearn.metrics.accuracy_score\<close> is missing from the sources. It
  is the fraction of positions at which the two arrays agree: the mean of the array of
  the comparisons, which is NaN for empty arrays. Arrays of different lengths raise
  \<open>ValueError\<close>.
\<close>

definition accuracy_score :: "int list \<Rightarrow> int list \<Rightarrow> py_error + npfloat" where
  "accuracy_score y_true y_pred =
     (if length y_true \<noteq> length y_pred then Inl ValueError
      else if y_true = [] then Inr NaN
      else Inr (Fin (of_nat (length (filter (\<lambda>(t, p). t = p) (zip y_true y_pred)))
                      / of_nat (length y_true))))"

section \<open>The metric engine (train.py, lines 23-68)\<close>

definition label_list :: "string list" where
  "label_list =
     [''no_relation'', ''org:top_members/employees'', ''org:members'',
      ''org:product'', ''per:title'', ''org:alternate_names'',
      ''per:employee_of'', ''org:place_of_headquarters'', ''per:product'',
      ''org:number_of_employees/members'', ''per:children'',
      ''per:place_of_residence'', ''per:alternate_names'',
      ''per:other_family'', ''per:colleagues'', ''per:origin'', ''per:siblings'',
      ''per:spouse'', ''org:founded'', ''org:political/religious_affiliation'',
      ''org:member_of'', ''per:parents'', ''org:dissolved'',
      ''per:schools_attended'', ''per:date_of_death'', ''per:date_of_birth'',
      ''per:place_of_birth'', ''per:place_of_death'', ''org:founded_by'',
      ''per:religion'']"

text \<open>\<open>klue_re_micro_f1\<close>, lines 23-39.\<close>

definition klue_re_micro_f1 :: "int list \<Rightarrow> int list \<Rightarrow> py_error + rat" where
  "klue_re_micro_f1 preds labels =
     (case list_index ''no_relation'' label_list of
        Inl e \<Rightarrow> Inl e
      | Inr no_relation_label_idx \<Rightarrow>
          (case list_remove no_relation_label_idx [0..<length label_list] of
             Inl e \<Rightarrow> Inl e
           | Inr label_indices \<Rightarrow>
               (case f1_score_micro labels preds (map int label_indices) of
                  Inl e \<Rightarrow> Inl e
                | Inr f \<Rightarrow> Inr (f * 100))))"


text \<open>
  \<open>klue_re_auprc\<close>, lines 41-51. The loop over \<^verbatim>\<open>range(30)\<close> fills \<open>score\<close> one class at
  a time; an exception in one round ends the function.
\<close>

fun score_loop :: "ndarray2 \<Rightarrow> ndarray2 \<Rightarrow> nat list \<Rightarrow> py_error + npfloat list" where
  "score_loop labels probs [] = Inr []"
| "score_loop labels probs (c # cs) =
     (case take_col labels c of
        Inl e \<Rightarrow> Inl e
      | Inr targets_c \<Rightarrow>
          (case take_col probs c of
             Inl e \<Rightarrow> Inl e
           | Inr preds_c \<Rightarrow>
               (case precision_recall_curve targets_c preds_c of
                  Inl e \<Rightarrow> Inl e
                | Inr (precision, recall) \<Rightarrow>
                    (case auc recall precision of
                       Inl e \<Rightarrow> Inl e
                     | Inr score_c \<Rightarrow>
                         (case score_loop labels probs cs of
                            Inl e \<Rightarrow> Inl e
                          | Inr score \<Rightarrow> Inr (score_c # score))))))"

definition klue_re_auprc :: "ndarray2 \<Rightarrow> int list \<Rightarrow> py_error + npfloat" where
  "klue_re_auprc probs labels =
     (case index_rows (eye 30) labels of
        Inl e \<Rightarrow> Inl e
      | Inr labels1 \<Rightarrow>
          (case score_loop labels1 probs [0..<30] of
             Inl e \<Rightarrow> Inl e
           | Inr score \<Rightarrow> Inr (fl_lift2 (*) (average score) (Fin 100))))"

text \<open>\<open>compute_metrics\<close>, lines 53-68. The returned dictionary has three fixed keys.\<close>

record eval_prediction =
  label_ids :: "int list"
  predictions :: ndarray2

record metrics =
  micro_f1_score :: rat
  auprc :: npfloat
  accuracy :: npfloat

definition compute_metrics :: "eval_prediction \<Rightarrow> py_error + metrics" where
  "compute_metrics pred =
     (let labels = label_ids pred; probs = predictions pred in
      case argmax_last (predictions pred) of
        Inl e \<Rightarrow> Inl e
      | Inr preds \<Rightarrow>
          (case klue_re_micro_f1 preds labels of
             Inl e \<Rightarrow> Inl e
           | Inr f1 \<Rightarrow>
               (case klue_re_auprc probs labels of
                  Inl e \<Rightarrow> Inl e
                | Inr auprc_v \<Rightarrow>
                    (case accuracy_score labels preds of
                       Inl e \<Rightarrow> Inl e
                     | Inr acc \<Rightarrow>
                         Inr \<lparr>micro_f1_score = f1, auprc = auprc_v, accuracy = acc\<rparr>))))"

section \<open>Reference definitions, from the specification's words\<close>

text \<open>
  Micro-averaged F1 over a set of classes: the true positives, false positives and false
  negatives of the classes are pooled over the examples, given as pairs of the true and
  the predicted class, and one precision, one recall and one F1 are computed from the
  pooled counts. A quotient with denominator zero counts as 0.
\<close>

definition pooled_tp :: "int list \<Rightarrow> (int \<times> int) list \<Rightarrow> nat" where
  "pooled_tp classes examples =
     length (filter (\<lambda>(t, p). p \<in> set classes \<and> t = p) examples)"

definition pooled_fp :: "int list \<Rightarrow> (int \<times> int) list \<Rightarrow> nat" where
  "pooled_fp classes examples =
     length (filter (\<lambda>(t, p). p \<in> set classes \<and> t \<noteq> p) examples)"

definition pooled_fn :: "int list \<Rightarrow> (int \<times> int) list \<Rightarrow> nat" where
  "pooled_fn classes examples =
     length (filter (\<lambda>(t, p). t \<in> set classes \<and> t \<noteq> p) examples)"

definition ratio :: "nat \<Rightarrow> nat \<Rightarrow> rat" where
  "ratio a b = (if b = 0 then 0 else of_nat a / of_nat b)"

definition micro_f1_reference :: "int list \<Rightarrow> (int \<times> int) list \<Rightarrow> rat" where
  "micro_f1_reference classes examples =
     (let tp = pooled_tp classes examples;
          fp = pooled_fp classes examples;
          fn = pooled_fn classes examples;
          precision = ratio tp (tp + fp);
          recall = ratio tp (tp + fn)
      in if precision + recall = 0 then 0
         else 2 * precision * recall / (precision + recall))"

text \<open>
  The index of the class \<open>no_relation\<close> in the label list, and the indices of the other
  classes.
\<close>

definition no_relation_class :: int where
  "no_relation_class = int (length (takeWhile (\<lambda>l. l \<noteq> ''no_relation'') label_list))"

definition relation_classes :: "int list" where
  "relation_classes =
     filter (\<lambda>c. c \<noteq> no_relation_class) (map int [0..<length label_list])"

text \<open>One class against the rest: 1 where the true label is the class, 0 elsewhere.\<close>

definition class_vs_rest :: "nat \<Rightarrow> int list \<Rightarrow> rat list" where
  "class_vs_rest c labels = map (\<lambda>l. if l = int c then 1 else 0) labels"

text \<open>
  The area under the precision-recall curve of one binary problem, by the trapezoidal
  rule over the recall. The sign is flipped when the recall decreases along the curve.
\<close>

definition pr_area :: "rat list \<Rightarrow> rat list \<Rightarrow> npfloat" where
  "pr_area y_true y_score =
     (let (precision, recall) = pr_curve_points y_true y_score;
          area = trapz precision recall
      in if list_ex (\<lambda>d. fl_less d (Fin 0)) (np_diff recall)
         then fl_lift2 (*) (Fin (- 1)) area else area)"

text \<open>
  An evaluation batch: at least one example, one row of 30 scores and one true label per
  example, every label the index of one of the 30 classes.
\<close>

definition eval_batch :: "ndarray2 \<Rightarrow> int list \<Rightarrow> bool" where
  "eval_batch probs labels =
     (labels \<noteq> [] \<and> length (rows probs) = length labels \<and> ncols probs = 30
      \<and> wf_ndarray2 probs \<and> list_all (\<lambda>l. 0 \<le> l \<and> l < 30) labels)"

text \<open>
  The scores rescaled class by class: the score of class \<open>c\<close> in every row is replaced by
  its image under \<open>f c\<close>.
\<close>

definition rescale :: "(nat \<Rightarrow> rat \<Rightarrow> rat) \<Rightarrow> ndarray2 \<Rightarrow> ndarray2" where
  "rescale f probs =
     \<lparr>ncols = ncols probs, rows = map (\<lambda>r. map2 f [0..<length r] r) (rows probs)\<rparr>"

text \<open>
  The number of examples whose highest score is at the true label: the positions \<open>i\<close> of
  the batch at which the first maximum of row \<open>i\<close> stands at the index \<open>labels ! i\<close>.
\<close>

definition argmax_matches :: "rat list list \<Rightarrow> int list \<Rightarrow> nat" where
  "argmax_matches score_rows labels =
     length (filter (\<lambda>i. int (argmax_row (score_rows ! i)) = labels ! i) [0..<length labels])"

section \<open>Properties of the label codec\<close>

lemma append_loop_present:
  "\<forall>v\<in>set vs. v \<in> dom d \<Longrightarrow> append_loop d vs acc = Inr (acc @ map (\<lambda>v. the (d v)) vs)"
  by (induction vs arbitrary: acc) auto

lemma append_loop_absent:
  "\<exists>v\<in>set vs. v \<notin> dom d \<Longrightarrow> append_loop d vs acc = Inl KeyError"
proof (induction vs arbitrary: acc)
  case Nil
  then show ?case by simp
next
  case (Cons v vs)
  show ?case
  proof (cases "d v")
    case None
    then show ?thesis by simp
  next
    case (Some n)
    with Cons.prems have "\<exists>w\<in>set vs. w \<notin> dom d" by auto
    with Cons.IH Some show ?thesis by simp
  qed
qed

lemma label_to_num_present:
  assumes "dict_label_to_num_pkl dk = Some d" and "\<forall>v\<in>set label. v \<in> dom d"
  shows "fst (label_to_num dk label) = Inr (map (\<lambda>v. the (d v)) label)"
  using assms by (simp add: label_to_num_def append_loop_present)

lemma label_to_num_absent:
  assumes "dict_label_to_num_pkl dk = Some d" and "\<exists>v\<in>set label. v \<notin> dom d"
  shows "fst (label_to_num dk label) = Inl KeyError"
  using assms by (simp add: label_to_num_def append_loop_absent)

lemma label_to_num_disk:
  "dict_label_to_num_pkl (snd (label_to_num dk label)) = dict_label_to_num_pkl dk"
  by (simp add: label_to_num_def split: option.splits)

lemma label_to_num_loads:
  "pickle_loads (snd (label_to_num dk label)) =
     (if dict_label_to_num_pkl dk = None then pickle_loads dk else pickle_loads dk + 1)"
  by (simp add: label_to_num_def split: option.splits)

lemma train_labels_absent:
  assumes d: "dict_label_to_num_pkl dk = Some d"
    and ex: "\<exists>v\<in>set train_values \<union> set dev_values. v \<notin> dom d"
  shows "fst (train_labels dk train_values dev_values) = Inl KeyError"
proof (cases "\<exists>v\<in>set train_values. v \<notin> dom d")
  case True
  then have "append_loop d train_values [] = Inl KeyError"
    by (rule append_loop_absent)
  with d show ?thesis
    by (simp add: train_labels_def label_to_num_def)
next
  case False
  then have tr: "append_loop d train_values [] = Inr ([] @ map (\<lambda>v. the (d v)) train_values)"
    by (intro append_loop_present) simp
  from False ex have "\<exists>v\<in>set dev_values. v \<notin> dom d" by auto
  then have "append_loop d dev_values [] = Inl KeyError"
    by (rule append_loop_absent)
  with d tr show ?thesis
    by (simp add: train_labels_def label_to_num_def)
qed

text \<open>
  Claim C3. When the mapping file holds the dictionary \<open>d\<close>: if every label of the input
  is a key of \<open>d\<close>, \<open>label_to_num\<close> returns the list of the corresponding indices, of the
  same length and in the same order as the input; if some label is not a key, it raises
  \<open>KeyError\<close> and returns no list, and \<open>train\<close>, which calls it for the training and
  the validation labels without catching anything, ends with that \<open>KeyError\<close>.
\<close>

theorem label_to_num_lookup:
  assumes "dict_label_to_num_pkl dk = Some d"
  shows "((\<forall>v\<in>set label. v \<in> dom d) \<longrightarrow>
            (\<exists>num_label. fst (label_to_num dk label) = Inr num_label
               \<and> length num_label = length label
               \<and> (\<forall>i<length label. d (label ! i) = Some (num_label ! i))))
       \<and> ((\<exists>v\<in>set label. v \<notin> dom d) \<longrightarrow> fst (label_to_num dk label) = Inl KeyError)
       \<and> ((\<exists>v\<in>set label \<union> set dev_values. v \<notin> dom d) \<longrightarrow>
            fst (train_labels dk label dev_values) = Inl KeyError)"
proof (intro conjI impI)
  assume all: "\<forall>v\<in>set label. v \<in> dom d"
  have r: "fst (label_to_num dk label) = Inr (map (\<lambda>v. the (d v)) label)"
    using assms all by (rule label_to_num_present)
  have "\<forall>i<length label. d (label ! i) = Some (map (\<lambda>v. the (d v)) label ! i)"
  proof (intro allI impI)
    fix i assume i: "i < length label"
    then have "label ! i \<in> dom d" using all by simp
    with i show "d (label ! i) = Some (map (\<lambda>v. the (d v)) label ! i)" by auto
  qed
  with r show "\<exists>num_label. fst (label_to_num dk label) = Inr num_label
      \<and> length num_label = length label
      \<and> (\<forall>i<length label. d (label ! i) = Some (num_label ! i))"
    by simp
next
  assume "\<exists>v\<in>set label. v \<notin> dom d"
  with assms show "fst (label_to_num dk label) = Inl KeyError"
    by (rule label_to_num_absent)
next
  assume "\<exists>v\<in>set label \<union> set dev_values. v \<notin> dom d"
  with assms show "fst (train_labels dk label dev_values) = Inl KeyError"
    by (rule train_labels_absent)
qed

theorem label_to_num_lookup_witness:
  "fst (label_to_num \<lparr>dict_label_to_num_pkl = Some [''no_relation'' \<mapsto> 0, ''org:founded'' \<mapsto> 18],
                      pickle_loads = 0\<rparr> [''org:founded'', ''no_relation'']) = Inr [18, 0]
   \<and> fst (label_to_num \<lparr>dict_label_to_num_pkl = Some [''no_relation'' \<mapsto> 0, ''org:founded'' \<mapsto> 18],
                      pickle_loads = 0\<rparr> [''org:founded'', ''per:title'']) = Inl KeyError
   \<and> fst (train_labels \<lparr>dict_label_to_num_pkl = Some [''no_relation'' \<mapsto> 0, ''org:founded'' \<mapsto> 18],
                      pickle_loads = 0\<rparr> [''org:founded'', ''per:title''] [''no_relation'']) = Inl KeyError"
proof -
  let ?d = "[''no_relation'' \<mapsto> 0 :: int, ''org:founded'' \<mapsto> 18]"
  let ?dk = "\<lparr>dict_label_to_num_pkl = Some ?d, pickle_loads = 0\<rparr>"
  have d: "dict_label_to_num_pkl ?dk = Some ?d" by simp
  from label_to_num_lookup [OF d, of "[''org:founded'', ''no_relation'']" "[]"]
  obtain num_label where r: "fst (label_to_num ?dk [''org:founded'', ''no_relation'']) = Inr num_label"
    and len: "length num_label = 2"
    and nth: "\<forall>i<2. ?d ([''org:founded'', ''no_relation''] ! i) = Some (num_label ! i)"
    by auto
  from nth [rule_format, of 0] have n0: "num_label ! 0 = 18" by simp
  from nth [rule_format, of 1] have n1: "num_label ! 1 = 0" by simp
  from len n0 n1 have "num_label = [18, 0]"
    by (auto simp: list_eq_iff_nth_eq less_Suc_eq numeral_2_eq_2)
  with r have present: "fst (label_to_num ?dk [''org:founded'', ''no_relation'']) = Inr [18, 0]"
    by simp
  from label_to_num_lookup [OF d, of "[''org:founded'', ''per:title'']" "[''no_relation'']"]
  have "fst (label_to_num ?dk [''org:founded'', ''per:title'']) = Inl KeyError"
    and "fst (train_labels ?dk [''org:founded'', ''per:title''] [''no_relation'']) = Inl KeyError"
    by simp_all
  with present show ?thesis by simp
qed

section \<open>The mapping file during a run\<close>

lemma train_labels_disk:
  "dict_label_to_num_pkl (snd (train_labels dk train_values dev_values)) = dict_label_to_num_pkl dk"
  by (simp add: train_labels_def label_to_num_def split: option.splits sum.splits)

lemma label_to_num_ok_loads:
  "fst (label_to_num dk label) = Inr r \<Longrightarrow>
     pickle_loads (snd (label_to_num dk label)) = pickle_loads dk + 1"
  by (simp add: label_to_num_def split: option.splits)

lemma train_labels_ok_loads:
  "fst (train_labels dk train_values dev_values) = Inr r \<Longrightarrow>
     pickle_loads (snd (train_labels dk train_values dev_values)) = pickle_loads dk + 2"
  by (simp add: train_labels_def label_to_num_def split: option.splits sum.splits)

text \<open>
  Claim C9, as stated, fails: the mapping file is not loaded exactly once in a run. In a
  run with one training label and one validation label it has been loaded twice when
  the labels are converted.
\<close>

theorem mapping_loaded_twice:
  "pickle_loads (snd (train_labels
      \<lparr>dict_label_to_num_pkl = Some [''no_relation'' \<mapsto> 0], pickle_loads = 0\<rparr>
      [''no_relation''] [''no_relation''])) = 2
   \<and> pickle_loads (snd (train_labels
      \<lparr>dict_label_to_num_pkl = Some [''no_relation'' \<mapsto> 0], pickle_loads = 0\<rparr>
      [''no_relation''] [''no_relation''])) \<noteq> 1"
  by (simp add: train_labels_def label_to_num_def)

text \<open>
  Claim C9, amended. Every call of \<open>label_to_num\<close> that returns has loaded the mapping
  file once, and \<open>train\<close> calls it twice, for the training and for the validation
  labels: a run in which both conversions succeed has loaded the file exactly twice.
  Neither \<open>label_to_num\<close> nor the two calls in \<open>train\<close> change the content of the
  file.
\<close>

theorem mapping_loaded_per_call:
  "dict_label_to_num_pkl (snd (label_to_num dk label)) = dict_label_to_num_pkl dk
   \<and> dict_label_to_num_pkl (snd (train_labels dk label dev_values)) = dict_label_to_num_pkl dk
   \<and> (\<forall>r. fst (label_to_num dk label) = Inr r \<longrightarrow>
          pickle_loads (snd (label_to_num dk label)) = pickle_loads dk + 1)
   \<and> (\<forall>r. fst (train_labels dk label dev_values) = Inr r \<longrightarrow>
          pickle_loads (snd (train_labels dk label dev_values)) = pickle_loads dk + 2)"
  using label_to_num_disk train_labels_disk label_to_num_ok_loads train_labels_ok_loads
  by blast

theorem mapping_loaded_per_call_witness:
  "fst (train_labels
      \<lparr>dict_label_to_num_pkl = Some [''no_relation'' \<mapsto> 0, ''per:title'' \<mapsto> 4], pickle_loads = 0\<rparr>
      [''per:title'', ''no_relation''] [''no_relation'']) = Inr ([4, 0], [0])
   \<and> pickle_loads (snd (train_labels
      \<lparr>dict_label_to_num_pkl = Some [''no_relation'' \<mapsto> 0, ''per:title'' \<mapsto> 4], pickle_loads = 0\<rparr>
      [''per:title'', ''no_relation''] [''no_relation''])) = 0 + 2
   \<and> dict_label_to_num_pkl (snd (train_labels
      \<lparr>dict_label_to_num_pkl = Some [''no_relation'' \<mapsto> 0, ''per:title'' \<mapsto> 4], pickle_loads = 0\<rparr>
      [''per:title'', ''no_relation''] [''no_relation'']))
       = Some [''no_relation'' \<mapsto> 0, ''per:title'' \<mapsto> 4]"
proof -
  have ok: "fst (train_labels
      \<lparr>dict_label_to_num_pkl = Some [''no_relation'' \<mapsto> 0, ''per:title'' \<mapsto> 4], pickle_loads = 0\<rparr>
      [''per:title'', ''no_relation''] [''no_relation'']) = Inr ([4, 0], [0])"
    by (simp add: train_labels_def label_to_num_def)
  show ?thesis
    using ok mapping_loaded_per_call
      [of "\<lparr>dict_label_to_num_pkl = Some [''no_relation'' \<mapsto> 0, ''per:title'' \<mapsto> 4], pickle_loads = 0\<rparr>"
          "[''per:title'', ''no_relation'']" "[''no_relation'']"]
    by simp
qed

section \<open>Properties of the micro F1\<close>

lemma label_list_length: "length label_list = 30"
  by (simp add: label_list_def)

lemma no_relation_index: "list_index ''no_relation'' label_list = Inr 0"
  by (simp add: label_list_def)

lemma list_remove_hd_upt: "0 < n \<Longrightarrow> list_remove 0 [0..<n] = Inr [1..<n]"
  by (simp add: upt_conv_Cons)

lemma no_relation_class_eq: "no_relation_class = 0"
  by (simp add: no_relation_class_def label_list_def)

lemma relation_classes_eq: "relation_classes = map int [1..<30]"
  unfolding relation_classes_def no_relation_class_eq label_list_length by code_simp

lemma length_filter_disjoint:
  "(\<And>x. \<not> (P x \<and> Q x)) \<Longrightarrow>
     length (filter P xs) + length (filter Q xs) = length (filter (\<lambda>x. P x \<or> Q x) xs)"
  by (induction xs) auto

lemma sum_list_class_counts:
  "distinct ls \<Longrightarrow>
     sum_list (map (\<lambda>l. length (filter (\<lambda>x. P x \<and> f x = l) xs)) ls)
       = length (filter (\<lambda>x. P x \<and> f x \<in> set ls) xs)"
proof (induction ls)
  case Nil
  then show ?case by simp
next
  case (Cons l ls)
  then have IH: "sum_list (map (\<lambda>l. length (filter (\<lambda>x. P x \<and> f x = l) xs)) ls)
       = length (filter (\<lambda>x. P x \<and> f x \<in> set ls) xs)" and l: "l \<notin> set ls"
    by simp_all
  have "length (filter (\<lambda>x. P x \<and> f x = l) xs) + length (filter (\<lambda>x. P x \<and> f x \<in> set ls) xs)
      = length (filter (\<lambda>x. (P x \<and> f x = l) \<or> (P x \<and> f x \<in> set ls)) xs)"
    using l by (intro length_filter_disjoint) auto
  also have "(\<lambda>x. (P x \<and> f x = l) \<or> (P x \<and> f x \<in> set ls)) = (\<lambda>x. P x \<and> f x \<in> set (l # ls))"
    by auto
  finally show ?case using IH by simp
qed

lemma length_filter_zip_fst:
  "length xs = length ys \<Longrightarrow> length (filter (\<lambda>(t, p). Q t) (zip xs ys)) = length (filter Q xs)"
  by (induction xs ys rule: list_induct2) auto

lemma length_filter_zip_snd:
  "length xs = length ys \<Longrightarrow> length (filter (\<lambda>(t, p). Q p) (zip xs ys)) = length (filter Q ys)"
  by (induction xs ys rule: list_induct2) auto

lemma tp_sum_pooled:
  assumes "distinct ls"
  shows "sum_list (map (tp_count y_true y_pred) ls) = pooled_tp ls (zip y_true y_pred)"
proof -
  have "sum_list (map (\<lambda>l. length (filter (\<lambda>x. fst x = snd x \<and> fst x = l) (zip y_true y_pred))) ls)
      = length (filter (\<lambda>x. fst x = snd x \<and> fst x \<in> set ls) (zip y_true y_pred))"
    using assms by (rule sum_list_class_counts)
  moreover have "(\<lambda>x::int \<times> int. fst x = snd x \<and> fst x \<in> set ls) = (\<lambda>(t, p). p \<in> set ls \<and> t = p)"
    by auto
  moreover have "\<And>l. (\<lambda>x::int \<times> int. fst x = snd x \<and> fst x = l) = (\<lambda>(t, p). t = p \<and> t = l)"
    by auto
  moreover have "tp_count y_true y_pred = (\<lambda>l. length (filter (\<lambda>(t, p). t = p \<and> t = l) (zip y_true y_pred)))"
    by (intro ext) (simp add: tp_count_def)
  ultimately show ?thesis
    by (simp add: pooled_tp_def)
qed

lemma pred_sum_pooled:
  assumes "distinct ls" and "length y_true = length y_pred"
  shows "sum_list (map (pred_count y_pred) ls)
           = pooled_tp ls (zip y_true y_pred) + pooled_fp ls (zip y_true y_pred)"
proof -
  have "sum_list (map (\<lambda>l. length (filter (\<lambda>p. True \<and> p = l) y_pred)) ls)
      = length (filter (\<lambda>p. True \<and> p \<in> set ls) y_pred)"
    using assms(1) by (rule sum_list_class_counts)
  moreover have "pred_count y_pred = (\<lambda>l. length (filter (\<lambda>p. p = l) y_pred))"
    by (intro ext) (simp add: pred_count_def)
  ultimately have "sum_list (map (pred_count y_pred) ls) = length (filter (\<lambda>p. p \<in> set ls) y_pred)"
    by simp
  also have "\<dots> = length (filter (\<lambda>(t, p). p \<in> set ls) (zip y_true y_pred))"
    using assms(2) by (simp add: length_filter_zip_snd)
  also have "\<dots> = length (filter (\<lambda>(t, p). p \<in> set ls \<and> t = p) (zip y_true y_pred))
                  + length (filter (\<lambda>(t, p). p \<in> set ls \<and> t \<noteq> p) (zip y_true y_pred))"
  proof -
    have "(\<lambda>x. (case x of (t, p) \<Rightarrow> p \<in> set ls \<and> t = p) \<or> (case x of (t, p) \<Rightarrow> p \<in> set ls \<and> t \<noteq> p))
        = (\<lambda>(t::int, p). p \<in> set ls)" by auto
    then show ?thesis
      by (subst length_filter_disjoint) auto
  qed
  finally show ?thesis by (simp add: pooled_tp_def pooled_fp_def)
qed

lemma true_sum_pooled:
  assumes "distinct ls" and "length y_true = length y_pred"
  shows "sum_list (map (true_count y_true) ls)
           = pooled_tp ls (zip y_true y_pred) + pooled_fn ls (zip y_true y_pred)"
proof -
  have "sum_list (map (\<lambda>l. length (filter (\<lambda>t. True \<and> t = l) y_true)) ls)
      = length (filter (\<lambda>t. True \<and> t \<in> set ls) y_true)"
    using assms(1) by (rule sum_list_class_counts)
  moreover have "true_count y_true = (\<lambda>l. length (filter (\<lambda>t. t = l) y_true))"
    by (intro ext) (simp add: true_count_def)
  ultimately have "sum_list (map (true_count y_true) ls) = length (filter (\<lambda>t. t \<in> set ls) y_true)"
    by simp
  also have "\<dots> = length (filter (\<lambda>(t, p). t \<in> set ls) (zip y_true y_pred))"
    using assms(2) by (simp add: length_filter_zip_fst)
  also have "\<dots> = length (filter (\<lambda>(t, p). p \<in> set ls \<and> t = p) (zip y_true y_pred))
                  + length (filter (\<lambda>(t, p). t \<in> set ls \<and> t \<noteq> p) (zip y_true y_pred))"
  proof -
    have "(\<lambda>x. (case x of (t, p) \<Rightarrow> p \<in> set ls \<and> t = p) \<or> (case x of (t, p) \<Rightarrow> t \<in> set ls \<and> t \<noteq> p))
        = (\<lambda>(t::int, p). t \<in> set ls)" by auto
    then show ?thesis
      by (subst length_filter_disjoint) auto
  qed
  finally show ?thesis by (simp add: pooled_tp_def pooled_fn_def)
qed

lemma ratio_nonneg: "0 \<le> ratio a b"
  by (simp add: ratio_def)

lemma ratio_sum_zero: "ratio a b + ratio c d = 0 \<longleftrightarrow> ratio a b = 0 \<and> ratio c d = 0"
  by (rule add_nonneg_eq_0_iff) (rule ratio_nonneg)+

lemma f1_score_micro_reference:
  assumes "distinct ls" and "length y_true = length y_pred"
  shows "f1_score_micro y_true y_pred ls = Inr (micro_f1_reference ls (zip y_true y_pred))"
proof -
  have tp: "sum_list (map (tp_count y_true y_pred) ls) = pooled_tp ls (zip y_true y_pred)"
    using assms(1) by (rule tp_sum_pooled)
  have pr: "sum_list (map (pred_count y_pred) ls)
      = pooled_tp ls (zip y_true y_pred) + pooled_fp ls (zip y_true y_pred)"
    using assms by (rule pred_sum_pooled)
  have tr: "sum_list (map (true_count y_true) ls)
      = pooled_tp ls (zip y_true y_pred) + pooled_fn ls (zip y_true y_pred)"
    using assms by (rule true_sum_pooled)
  have "prf_divide = ratio"
    by (intro ext) (simp add: prf_divide_def ratio_def)
  then show ?thesis
    using assms(2)
    by (simp add: f1_score_micro_def micro_f1_reference_def Let_def tp pr tr ratio_sum_zero)
qed

lemma klue_re_micro_f1_unfold:
  "klue_re_micro_f1 preds labels =
     (case f1_score_micro labels preds relation_classes of Inl e \<Rightarrow> Inl e | Inr f \<Rightarrow> Inr (f * 100))"
  by (simp add: klue_re_micro_f1_def no_relation_index label_list_length list_remove_hd_upt
      relation_classes_eq)

lemma distinct_relation_classes: "distinct relation_classes"
  by (simp add: relation_classes_eq distinct_map)

lemma set_relation_classes: "set relation_classes = {c. 0 < c \<and> c < 30}"
proof -
  have "int ` {1..<30} = {c. 0 < c \<and> c < 30}"
  proof (intro set_eqI iffI)
    fix c :: int assume "c \<in> {c. 0 < c \<and> c < 30}"
    then have "c = int (nat c)" "nat c \<in> {1..<30}" by auto
    then show "c \<in> int ` {1..<30}" by blast
  qed auto
  then show ?thesis by (simp add: relation_classes_eq)
qed


lemma zip_same: "zip xs xs = map (\<lambda>x. (x, x)) xs"
  by (induction xs) auto

lemma pooled_same:
  "pooled_fp cs (zip xs xs) = 0" "pooled_fn cs (zip xs xs) = 0"
  "pooled_tp cs (zip xs xs) = length (filter (\<lambda>x. x \<in> set cs) xs)"
  by (simp_all add: pooled_fp_def pooled_fn_def pooled_tp_def zip_same filter_map comp_def)

lemma micro_f1_reference_perfect:
  assumes "\<exists>l\<in>set labels. l \<in> set cs"
  shows "micro_f1_reference cs (zip labels labels) = 1"
proof -
  from assms have "filter (\<lambda>x. x \<in> set cs) labels \<noteq> []"
    by (simp add: filter_empty_conv)
  then have "0 < length (filter (\<lambda>x. x \<in> set cs) labels)" by simp
  then show ?thesis
    by (simp add: micro_f1_reference_def pooled_same ratio_def Let_def)
qed





text \<open>
  Claim C1. For predictions and true labels of the same length, \<open>klue_re_micro_f1\<close>
  returns 100 times the micro-averaged F1 over the classes other than \<open>no_relation\<close>:
  the label list has 30 entries, \<open>no_relation\<close> is found in it at index
  \<open>no_relation_class\<close>, the other 29 class indices are formed, and the true positives,
  false positives and false negatives are pooled over those 29 classes only, before one
  precision, one recall and one F1 are computed.
\<close>

theorem klue_re_micro_f1_pooled:
  assumes "length preds = length labels"
  shows "klue_re_micro_f1 preds labels
           = Inr (100 * micro_f1_reference relation_classes (zip labels preds))
       \<and> length label_list = 30
       \<and> list_index ''no_relation'' label_list = Inr (nat no_relation_class)
       \<and> length relation_classes = 29
       \<and> set relation_classes = {c. 0 \<le> c \<and> c < 30 \<and> c \<noteq> no_relation_class}"
proof -
  have "klue_re_micro_f1 preds labels
      = Inr (100 * micro_f1_reference relation_classes (zip labels preds))"
    using assms
    by (simp add: klue_re_micro_f1_unfold f1_score_micro_reference distinct_relation_classes)
  moreover have "length relation_classes = 29"
    by (simp add: relation_classes_eq)
  moreover have "set relation_classes = {c. 0 \<le> c \<and> c < 30 \<and> c \<noteq> no_relation_class}"
    by (auto simp: set_relation_classes no_relation_class_eq)
  ultimately show ?thesis
    by (simp add: label_list_length no_relation_index no_relation_class_eq)
qed

theorem klue_re_micro_f1_pooled_witness:
  "length [2, 0, 5, 5 :: int] = length [2, 3, 5, 0 :: int]
   \<and> klue_re_micro_f1 [2, 0, 5, 5] [2, 3, 5, 0]
       = Inr (100 * micro_f1_reference relation_classes (zip [2, 3, 5, 0] [2, 0, 5, 5]))"
  using klue_re_micro_f1_pooled [of "[2, 0, 5, 5]" "[2, 3, 5, 0]"] by simp

text \<open>
  Claim C4. When the predictions equal the true labels at every example, the labels are
  class indices of the 30 classes, and at least one true label is not the index of
  \<open>no_relation\<close>, \<open>klue_re_micro_f1\<close> returns exactly 100.
\<close>

theorem klue_re_micro_f1_perfect:
  assumes "preds = labels"
    and "\<forall>l\<in>set labels. 0 \<le> l \<and> l < 30"
    and "\<exists>l\<in>set labels. l \<noteq> no_relation_class"
  shows "klue_re_micro_f1 preds labels = Inr 100"
proof -
  from assms(2,3) have "\<exists>l\<in>set labels. l \<in> set relation_classes"
    by (force simp: set_relation_classes no_relation_class_eq)
  then have "micro_f1_reference relation_classes (zip labels labels) = 1"
    by (rule micro_f1_reference_perfect)
  then show ?thesis
    using assms(1)
    by (simp add: klue_re_micro_f1_unfold f1_score_micro_reference distinct_relation_classes)
qed

theorem klue_re_micro_f1_perfect_witness:
  "set [0, 4, 4 :: int] \<subseteq> {0..<30}
   \<and> (\<exists>l\<in>set [0, 4, 4 :: int]. l \<noteq> no_relation_class)
   \<and> klue_re_micro_f1 [0, 4, 4] [0, 4, 4] = Inr 100"
  using klue_re_micro_f1_perfect [of "[0, 4, 4]" "[0, 4, 4]"]
  by (simp add: no_relation_class_eq)








text \<open>
  Claim C7. For the labels \<open>[0, 0, 1]\<close> and the predictions \<open>[0, 1, 1]\<close>, with class 0
  being \<open>no_relation\<close>, \<open>klue_re_micro_f1\<close> returns \<open>200 / 3\<close>, which is 100 times the
  micro F1 of the reference definition restricted to the class 1, the only class
  other than 0 that occurs: one true positive, one false positive and no false negative.
\<close>

theorem klue_re_micro_f1_scenario:
  "no_relation_class = 0
   \<and> klue_re_micro_f1 [0, 1, 1] [0, 0, 1] = Inr (200 / 3)
   \<and> 100 * micro_f1_reference [1] (zip [0, 0, 1] [0, 1, 1]) = 200 / 3"
proof -
  have "klue_re_micro_f1 [0, 1, 1] [0, 0, 1] = Inr (200 / 3)"
    by code_simp
  moreover have "100 * micro_f1_reference [1] (zip [0, 0, 1] [0, 1, 1]) = 200 / 3"
    by code_simp
  ultimately show ?thesis
    by (simp add: no_relation_class_eq)
qed

section \<open>Properties of the area under the precision-recall curve\<close>

subsection \<open>sorting under a strictly monotone rescaling\<close>

lemma insort_key_apfst:
  assumes "strict_mono (f :: rat \<Rightarrow> rat)"
  shows "insort_key fst (f a, b) (map (\<lambda>p. (f (fst p), snd p)) ps)
       = map (\<lambda>p. (f (fst p), snd p)) (insort_key fst (a, b) ps)"
  using assms by (induction ps) (auto simp: strict_mono_less_eq)

lemma sort_key_apfst:
  assumes "strict_mono (f :: rat \<Rightarrow> rat)"
  shows "sort_key fst (map (\<lambda>p. (f (fst p), snd p)) (ps :: (rat \<times> rat) list))
       = map (\<lambda>p. (f (fst p), snd p)) (sort_key fst ps)"
proof (induction ps)
  case Nil
  then show ?case by simp
next
  case (Cons p ps)
  obtain a b where p: "p = (a, b)" by (cases p)
  show ?case
    using Cons.IH insort_key_apfst [OF assms, of a b "sort_key fst ps"]
    by (simp add: p)
qed

lemma zip_map_fst: "zip (map f xs) ys = map (\<lambda>p. (f (fst p), snd p)) (zip xs ys)"
  by (simp add: zip_map1 case_prod_beta)

lemma desc_score_order_rescaled:
  assumes "strict_mono (f :: rat \<Rightarrow> rat)"
  shows "desc_score_order (zip (map f y_score) y_true)
       = map (\<lambda>p. (f (fst p), snd p)) (desc_score_order (zip y_score y_true))"
  by (simp add: desc_score_order_def zip_map_fst sort_key_apfst [OF assms] rev_map)

lemma distinct_value_indices_rescaled:
  assumes "strict_mono (f :: rat \<Rightarrow> rat)"
  shows "distinct_value_indices (map f ys) = distinct_value_indices ys"
proof -
  have inj: "\<And>a b. f a = f b \<longleftrightarrow> a = b"
    using assms by (simp add: strict_mono_eq)
  have "filter (\<lambda>i. map f ys ! Suc i \<noteq> map f ys ! i) [0..<length ys - 1]
      = filter (\<lambda>i. ys ! Suc i \<noteq> ys ! i) [0..<length ys - 1]"
    by (rule filter_cong) (auto simp: inj)
  then show ?thesis by (simp add: distinct_value_indices_def)
qed

lemma binary_clf_counts_rescaled:
  assumes "strict_mono (f :: rat \<Rightarrow> rat)"
  shows "binary_clf_counts y_true (map f y_score) = binary_clf_counts y_true y_score"
  by (simp add: binary_clf_counts_def Let_def desc_score_order_rescaled [OF assms] comp_def
      distinct_value_indices_rescaled [OF assms, of "map fst xs" for xs, simplified comp_def map_map])

lemma pr_curve_points_rescaled:
  assumes "strict_mono (f :: rat \<Rightarrow> rat)"
  shows "pr_curve_points y_true (map f y_score) = pr_curve_points y_true y_score"
  by (simp add: pr_curve_points_def binary_clf_counts_rescaled [OF assms])

lemma precision_recall_curve_rescaled:
  assumes "strict_mono (f :: rat \<Rightarrow> rat)"
  shows "precision_recall_curve y_true (map f y_score) = precision_recall_curve y_true y_score"
  by (simp add: precision_recall_curve_def pr_curve_points_rescaled [OF assms])

subsection \<open>the counts are ascending\<close>

lemma length_cumsum_from: "length (cumsum_from a xs) = length xs"
  by (induction xs arbitrary: a) auto

lemma cumsum_from_lower: "x \<in> set (cumsum_from a xs) \<Longrightarrow> a \<le> x"
  by (induction xs arbitrary: a) fastforce+

lemma sorted_cumsum_from: "sorted (cumsum_from a xs)"
proof (induction xs arbitrary: a)
  case Nil
  then show ?case by simp
next
  case (Cons x xs)
  have "\<forall>y\<in>set (cumsum_from (a + x) xs). a + x \<le> y"
    using cumsum_from_lower by blast
  with Cons.IH show ?case by simp
qed

lemma sorted_distinct_value_indices: "sorted (distinct_value_indices ys)"
  by (simp add: distinct_value_indices_def sorted_wrt_filter)

lemma distinct_value_indices_bound:
  "i \<in> set (distinct_value_indices ys) \<Longrightarrow> i < length ys - 1"
  by (simp add: distinct_value_indices_def)

lemma sorted_threshold_idxs:
  "sorted (distinct_value_indices ys @ [length ys - 1])"
  using distinct_value_indices_bound [of _ ys]
  by (auto simp: sorted_append sorted_distinct_value_indices intro: less_imp_le)

lemma threshold_idxs_bound:
  assumes "ys \<noteq> []" and "i \<in> set (distinct_value_indices ys @ [length ys - 1])"
  shows "i < length ys"
  using assms distinct_value_indices_bound [of i ys] by (cases ys) auto

lemma sorted_map_nth:
  assumes "sorted (cs :: nat list)" and "sorted idxs" and "\<forall>i\<in>set idxs. i < length cs"
  shows "sorted (map (\<lambda>i. cs ! i) idxs)"
  using assms(2,3)
proof (induction idxs)
  case Nil
  then show ?case by simp
next
  case (Cons i idxs)
  have "\<forall>j\<in>set idxs. cs ! i \<le> cs ! j"
  proof
    fix j assume j: "j \<in> set idxs"
    with Cons.prems have "i \<le> j" "j < length cs" by auto
    with assms(1) show "cs ! i \<le> cs ! j" by (rule sorted_nth_mono)
  qed
  with Cons show ?case by simp
qed

lemma binary_clf_counts_shape:
  assumes "y_true \<noteq> []" and "length y_true = length y_score"
    and "binary_clf_counts y_true y_score = (fps, tps)"
  shows "sorted tps" and "tps \<noteq> []" and "length fps = length tps"
proof -
  define ordered where "ordered = desc_score_order (zip y_score y_true)"
  define y_score1 where "y_score1 = map fst ordered"
  define y_true1 :: "nat list" where "y_true1 = map (\<lambda>p. if snd p = 1 then 1 else 0) ordered"
  define idxs where "idxs = distinct_value_indices y_score1 @ [length y_true1 - 1]"
  define cs where "cs = cumsum_from 0 y_true1"
  have len: "length ordered = length y_true"
    using assms(2) by (simp add: ordered_def desc_score_order_def)
  have l1: "length y_score1 = length y_true1" "y_score1 \<noteq> []" "length cs = length y_score1"
    using len assms(1) by (auto simp: y_score1_def y_true1_def cs_def length_cumsum_from)
  have "binary_clf_counts y_true y_score
      = (map2 (\<lambda>i t. 1 + i - t) idxs (map (\<lambda>i. cs ! i) idxs), map (\<lambda>i. cs ! i) idxs)"
    unfolding binary_clf_counts_def Let_def ordered_def y_score1_def y_true1_def idxs_def cs_def
    by (rule refl)
  with assms(3) have tps: "tps = map (\<lambda>i. cs ! i) idxs"
    and fps: "fps = map2 (\<lambda>i t. 1 + i - t) idxs tps"
    by auto
  have idxs': "idxs = distinct_value_indices y_score1 @ [length y_score1 - 1]"
    by (simp add: idxs_def l1)
  have "sorted idxs"
    unfolding idxs' by (rule sorted_threshold_idxs)
  moreover have "\<forall>i\<in>set idxs. i < length cs"
    unfolding idxs' using threshold_idxs_bound [OF l1(2)] l1(3) by auto
  moreover have "sorted cs"
    by (simp add: cs_def sorted_cumsum_from)
  ultimately show "sorted tps"
    unfolding tps by (intro sorted_map_nth) auto
  show "tps \<noteq> []" by (simp add: tps idxs_def)
  show "length fps = length tps" by (simp add: fps tps)
qed

subsection \<open>the differences of the recall\<close>

lemma np_diff_Cons2: "np_diff (a # b # x) = fl_lift2 (-) b a # np_diff (b # x)"
  by (simp add: np_diff_def)

lemma np_diff_single: "np_diff [a] = []"
  by (simp add: np_diff_def)

lemma np_diff_descending:
  "sorted_wrt (\<ge>) qs \<Longrightarrow> list_all (\<lambda>d. fl_le d (Fin 0)) (np_diff (map Fin qs))"
proof (induction qs rule: induct_list012)
  case 1
  then show ?case by (simp add: np_diff_def)
next
  case (2 x)
  then show ?case by (simp add: np_diff_single)
next
  case (3 x y zs)
  then show ?case by (simp add: np_diff_Cons2)
qed

lemma fl_lift2_NaN_right: "fl_lift2 f b NaN = NaN"
  by (cases b) simp_all

lemma np_diff_nan:
  "xs \<noteq> [] \<Longrightarrow> \<not> list_ex (\<lambda>d. fl_less d (Fin 0)) (np_diff (map (\<lambda>t. NaN) xs @ [b]))"
proof (induction xs rule: induct_list012)
  case 1
  then show ?case by simp
next
  case (2 x)
  then show ?case by (simp add: np_diff_Cons2 np_diff_single fl_lift2_NaN_right)
next
  case (3 x y zs)
  then show ?case by (simp add: np_diff_Cons2)
qed

lemma length_np_diff: "length (np_diff x) = length x - 1"
  by (simp add: np_diff_def)

lemma recall_direction:
  assumes "sorted (tps :: nat list)" and "tps \<noteq> []"
  defines "recall \<equiv> map (\<lambda>t. if last tps = 0 then NaN else Fin (of_nat t / of_nat (last tps))) tps"
  shows "list_ex (\<lambda>d. fl_less d (Fin 0)) (np_diff (rev (take (Suc k) recall) @ [Fin 0]))
           \<longrightarrow> list_all (\<lambda>d. fl_le d (Fin 0)) (np_diff (rev (take (Suc k) recall) @ [Fin 0]))"
proof (cases "last tps = 0")
  case True
  then have "rev (take (Suc k) recall) = map (\<lambda>t. NaN) (rev (take (Suc k) tps))"
    by (simp add: recall_def take_map rev_map)
  moreover have "rev (take (Suc k) tps) \<noteq> []"
    using assms(2) by (cases tps) auto
  ultimately show ?thesis
    using np_diff_nan [of "rev (take (Suc k) tps)" "Fin 0"] by simp
next
  case False
  define L :: rat where "L = of_nat (last tps)"
  have L: "0 < L" using False by (simp add: L_def)
  define qs where "qs = rev (take (Suc k) (map (\<lambda>t. of_nat t / L) tps)) @ [0]"
  have eq: "rev (take (Suc k) recall) @ [Fin 0] = map Fin qs"
    using False by (simp add: recall_def qs_def L_def take_map rev_map)
  have "sorted (map (\<lambda>t. rat_of_nat t / L) tps)"
    using assms(1) L by (simp add: sorted_map sorted_wrt_mono_rel [of tps "(\<le>)"] divide_right_mono)
  then have "sorted (take (Suc k) (map (\<lambda>t. rat_of_nat t / L) tps))"
    by (rule sorted_wrt_take)
  then have "sorted_wrt (\<ge>) (rev (take (Suc k) (map (\<lambda>t. rat_of_nat t / L) tps)))"
    by (simp add: sorted_wrt_rev)
  moreover have "\<forall>q\<in>set (take (Suc k) (map (\<lambda>t. rat_of_nat t / L) tps)). 0 \<le> q"
    using L by (auto dest!: in_set_takeD)
  ultimately have "sorted_wrt (\<ge>) qs"
    by (simp add: qs_def sorted_wrt_append)
  then show ?thesis
    unfolding eq by (simp add: np_diff_descending)
qed

lemma auc_pr_curve_points:
  assumes "y_true \<noteq> []" and "length y_true = length y_score"
    and "pr_curve_points y_true y_score = (precision, recall)"
  shows "auc recall precision = Inr (pr_area y_true y_score)"
proof -
  obtain fps tps where c: "binary_clf_counts y_true y_score = (fps, tps)"
    by (cases "binary_clf_counts y_true y_score")
  note sh = binary_clf_counts_shape [OF assms(1,2) c]
  define k where "k = searchsorted tps (last tps)"
  define rc where "rc = map (\<lambda>t. if last tps = 0 then NaN else Fin (of_nat t / of_nat (last tps))) tps"
  define pc where "pc = map2 (\<lambda>t f. Fin (if t + f = 0 then 0 else of_nat t / of_nat (t + f))) tps fps"
  have p: "precision = rev (take (Suc k) pc) @ [Fin 1]"
    and r: "recall = rev (take (Suc k) rc) @ [Fin 0]"
    using assms(3) by (simp_all add: pr_curve_points_def c Let_def k_def rc_def pc_def)
  have len: "length pc = length rc"
    by (simp add: pc_def rc_def sh(3))
  have "rc \<noteq> []" using sh(2) by (simp add: rc_def)
  then have two: "2 \<le> length recall"
    by (cases rc) (simp_all add: r)
  have leq: "length recall = length precision"
    by (simp add: p r len)
  have dir: "list_ex (\<lambda>d. fl_less d (Fin 0)) (np_diff recall)
      \<longrightarrow> list_all (\<lambda>d. fl_le d (Fin 0)) (np_diff recall)"
    unfolding r rc_def by (rule recall_direction [OF sh(1,2)])
  show ?thesis
    using two leq dir by (simp add: auc_def pr_area_def assms(3) Let_def)
qed

subsection \<open>one-hot encoding\<close>

lemma rows_eye_nth:
  "i < n \<Longrightarrow> rows (eye n) ! i = map (\<lambda>j. if i = j then 1 else 0) [0..<n]"
  by (simp add: eye_def)

lemma index_rows_eye30:
  "index_rows (eye 30) labels =
     (if list_all (\<lambda>l. - 30 \<le> l \<and> l < 30) labels
      then Inr \<lparr>ncols = 30, rows = map (\<lambda>l. rows (eye 30) ! nat (if l < 0 then l + 30 else l)) labels\<rparr>
      else Inl IndexError)"
  by (simp add: index_rows_def eye_def Let_def)

lemma one_hot_entry:
  assumes "- 30 \<le> l" and "l < 30" and "c < 30"
  shows "rows (eye 30) ! nat (if l < 0 then l + 30 else l) ! c
       = (if nat (if l < 0 then l + 30 else l) = c then 1 else 0)"
proof -
  have "nat (if l < 0 then l + 30 else l) < 30"
    using assms(1,2) by auto
  then show ?thesis
    using assms(3) by (simp add: rows_eye_nth)
qed

lemma one_hot_col30:
  assumes "list_all (\<lambda>l. - 30 \<le> l \<and> l < 30) labels" and "c < 30"
  shows "take_col \<lparr>ncols = 30, rows = map (\<lambda>l. rows (eye 30) ! nat (if l < 0 then l + 30 else l)) labels\<rparr> c
       = Inr (map (\<lambda>l. if nat (if l < 0 then l + 30 else l) = c then 1 else 0) labels)"
proof -
  have "map (\<lambda>l. rows (eye 30) ! nat (if l < 0 then l + 30 else l) ! c) labels
      = map (\<lambda>l. if nat (if l < 0 then l + 30 else l) = c then 1 else 0) labels"
    using assms by (intro map_cong refl one_hot_entry) (auto simp: list_all_iff)
  then show ?thesis
    using assms(2) by (simp add: take_col_def comp_def)
qed

lemma one_hot_col_class_vs_rest:
  assumes "list_all (\<lambda>l. 0 \<le> l \<and> l < 30) labels"
  shows "map (\<lambda>l. if nat (if l < 0 then l + 30 else l) = c then 1 else 0) labels
       = class_vs_rest c labels"
  unfolding class_vs_rest_def using assms
  by (intro map_cong refl) (auto simp: list_all_iff)

lemma binary_targets_ok_indicator:
  "labels \<noteq> [] \<Longrightarrow> binary_targets_ok (map (\<lambda>l. if P l then 1 else 0) labels)"
  by (auto simp: binary_targets_ok_def list_all_iff)

subsection \<open>the loop over the classes\<close>

lemma score_round:
  assumes "y_true \<noteq> []" and "length y_true = length y_score" and "binary_targets_ok y_true"
  shows "(case precision_recall_curve y_true y_score of
            Inl e \<Rightarrow> Inl e
          | Inr (precision, recall) \<Rightarrow>
              (case auc recall precision of
                 Inl e \<Rightarrow> Inl e
               | Inr score_c \<Rightarrow> f score_c)) = f (pr_area y_true y_score)"
proof -
  obtain precision recall where pr: "pr_curve_points y_true y_score = (precision, recall)"
    by (cases "pr_curve_points y_true y_score")
  have "auc recall precision = Inr (pr_area y_true y_score)"
    using assms(1,2) pr by (rule auc_pr_curve_points)
  then show ?thesis
    using assms(2,3) by (simp add: precision_recall_curve_def pr)
qed

lemma score_loop_one_hot:
  assumes "labels \<noteq> []" and "length (rows probs) = length labels"
    and "list_all (\<lambda>l. - 30 \<le> l \<and> l < 30) labels"
    and "\<forall>c\<in>set cs. c < 30 \<and> c < ncols probs"
  shows "score_loop \<lparr>ncols = 30, rows = map (\<lambda>l. rows (eye 30) ! nat (if l < 0 then l + 30 else l)) labels\<rparr>
           probs cs
       = Inr (map (\<lambda>c. pr_area (map (\<lambda>l. if nat (if l < 0 then l + 30 else l) = c then 1 else 0) labels)
                                (map (\<lambda>r. r ! c) (rows probs))) cs)"
  using assms(4)
proof (induction cs)
  case Nil
  then show ?case by simp
next
  case (Cons c cs)
  let ?t = "map (\<lambda>l. if nat (if l < 0 then l + 30 else l) = c then 1 else 0) labels"
  let ?s = "map (\<lambda>r. r ! c) (rows probs)"
  from Cons.prems have c: "c < 30" "c < ncols probs" by auto
  have t: "take_col \<lparr>ncols = 30, rows = map (\<lambda>l. rows (eye 30) ! nat (if l < 0 then l + 30 else l)) labels\<rparr> c
      = Inr ?t"
    using assms(3) c(1) by (rule one_hot_col30)
  have s: "take_col probs c = Inr ?s"
    using c(2) by (simp add: take_col_def)
  have ne: "?t \<noteq> []" using assms(1) by simp
  have len: "length ?t = length ?s" using assms(2) by simp
  have ok: "binary_targets_ok ?t" using assms(1) by (rule binary_targets_ok_indicator)
  from Cons have IH: "score_loop \<lparr>ncols = 30, rows = map (\<lambda>l. rows (eye 30) ! nat (if l < 0 then l + 30 else l)) labels\<rparr>
           probs cs
       = Inr (map (\<lambda>c. pr_area (map (\<lambda>l. if nat (if l < 0 then l + 30 else l) = c then 1 else 0) labels)
                                (map (\<lambda>r. r ! c) (rows probs))) cs)"
    by simp
  show ?case
    by (simp only: score_loop.simps t s sum.case score_round [OF ne len ok] IH list.map)
qed

lemma klue_re_auprc_value:
  assumes "labels \<noteq> []" and "length (rows probs) = length labels"
    and "list_all (\<lambda>l. - 30 \<le> l \<and> l < 30) labels"
    and "30 \<le> ncols probs"
  shows "klue_re_auprc probs labels
       = Inr (fl_lift2 (*)
           (average (map (\<lambda>c. pr_area (map (\<lambda>l. if nat (if l < 0 then l + 30 else l) = c then 1 else 0) labels)
                                (map (\<lambda>r. r ! c) (rows probs))) [0..<30]))
           (Fin 100))"
proof -
  have cs: "\<forall>c\<in>set [0..<30]. c < 30 \<and> c < ncols probs"
    using assms(4) by auto
  show ?thesis
    using score_loop_one_hot [OF assms(1,2,3) cs] assms(3)
    by (simp add: klue_re_auprc_def index_rows_eye30)
qed

lemma klue_re_auprc_index_error:
  assumes "\<not> list_all (\<lambda>l. - 30 \<le> l \<and> l < 30) labels"
  shows "klue_re_auprc probs labels = Inl IndexError"
  using assms by (simp add: klue_re_auprc_def index_rows_eye30)

subsection \<open>rescaled scores\<close>

lemma take_col_rescale:
  assumes "wf_ndarray2 probs"
  shows "take_col (rescale f probs) c
       = (case take_col probs c of Inl e \<Rightarrow> Inl e | Inr col \<Rightarrow> Inr (map (f c) col))"
proof (cases "c < ncols probs")
  case True
  have "map (\<lambda>r. map2 f [0..<length r] r ! c) (rows probs) = map (\<lambda>r. f c (r ! c)) (rows probs)"
    using assms True by (intro map_cong refl) (auto simp: wf_ndarray2_def list_all_iff)
  with True show ?thesis
    by (simp add: take_col_def rescale_def comp_def)
next
  case False
  then show ?thesis by (simp add: take_col_def rescale_def)
qed

lemma score_loop_rescale:
  assumes "wf_ndarray2 probs" and "\<forall>c<ncols probs. strict_mono (f c)"
  shows "score_loop labels1 (rescale f probs) cs = score_loop labels1 probs cs"
proof (induction cs)
  case Nil
  then show ?case by simp
next
  case (Cons c cs)
  show ?case
  proof (cases "take_col labels1 c")
    case (Inl e)
    then show ?thesis by simp
  next
    case t: (Inr targets_c)
    show ?thesis
    proof (cases "take_col probs c")
      case (Inl e)
      then show ?thesis
        by (simp add: t take_col_rescale [OF assms(1)])
    next
      case s: (Inr preds_c)
      then have "c < ncols probs"
        by (simp add: take_col_def split: if_splits)
      with assms(2) have "strict_mono (f c)" by simp
      then show ?thesis
        by (simp add: t s take_col_rescale [OF assms(1)] precision_recall_curve_rescaled Cons.IH
            split: sum.splits prod.splits)
    qed
  qed
qed


text \<open>
  Claim C2. For an evaluation batch, \<open>klue_re_auprc\<close> returns 100 times the arithmetic
  mean of 30 areas, one for each class, \<open>no_relation\<close> (class 0) included: the area of
  class \<open>c\<close> is the area under the precision-recall curve of the binary problem whose
  targets are 1 where the true label is \<open>c\<close> and 0 elsewhere, and whose scores are
  column \<open>c\<close> of the scores. The one-hot encoding followed by the selection of column
  \<open>c\<close> is that indicator of class \<open>c\<close> against the rest.
\<close>

theorem klue_re_auprc_mean:
  assumes "eval_batch probs labels"
  shows "klue_re_auprc probs labels
       = Inr (fl_lift2 (*)
           (fl_lift2 (/)
              (fl_sum (map (\<lambda>c. pr_area (class_vs_rest c labels) (map (\<lambda>r. r ! c) (rows probs)))
                           [0..<30]))
              (Fin 30))
           (Fin 100))"
proof -
  from assms have ne: "labels \<noteq> []" and len: "length (rows probs) = length labels"
    and nc: "30 \<le> ncols probs" and rng: "list_all (\<lambda>l. 0 \<le> l \<and> l < 30) labels"
    by (simp_all add: eval_batch_def)
  have rng': "list_all (\<lambda>l. - 30 \<le> l \<and> l < 30) labels"
    using rng by (auto simp: list_all_iff)
  show ?thesis
    unfolding klue_re_auprc_value [OF ne len rng' nc] one_hot_col_class_vs_rest [OF rng]
    by (simp add: average_def)
qed

theorem klue_re_auprc_mean_witness:
  "eval_batch (eye 30) (map int [0..<30])
   \<and> klue_re_auprc (eye 30) (map int [0..<30])
       = Inr (fl_lift2 (*)
           (fl_lift2 (/)
              (fl_sum (map (\<lambda>c. pr_area (class_vs_rest c (map int [0..<30]))
                                    (map (\<lambda>r. r ! c) (rows (eye 30))))
                           [0..<30]))
              (Fin 30))
           (Fin 100))
   \<and> klue_re_auprc (eye 30) (map int [0..<30]) = Inr (Fin 100)"
proof -
  have b: "eval_batch (eye 30) (map int [0..<30])"
    by code_simp
  have v: "klue_re_auprc (eye 30) (map int [0..<30]) = Inr (Fin 100)"
    by code_simp
  from b v klue_re_auprc_mean [OF b] show ?thesis
    by simp
qed

text \<open>
  Claim C6. When the scores of each class are rescaled by a strictly increasing function
  of their own, \<open>klue_re_auprc\<close> returns on the rescaled scores what it returns on the
  original scores (the same value, or the same exception).
\<close>

theorem klue_re_auprc_rescale:
  assumes "wf_ndarray2 probs" and "\<forall>c<ncols probs. strict_mono (f c)"
  shows "klue_re_auprc (rescale f probs) labels = klue_re_auprc probs labels"
  by (simp add: klue_re_auprc_def score_loop_rescale [OF assms] split: sum.splits)

theorem klue_re_auprc_rescale_witness:
  "wf_ndarray2 (eye 30)
   \<and> klue_re_auprc (rescale (\<lambda>c x. 2 * x + of_nat c) (eye 30)) (map int [0..<30])
       = klue_re_auprc (eye 30) (map int [0..<30])
   \<and> klue_re_auprc (rescale (\<lambda>c x. 2 * x + of_nat c) (eye 30)) (map int [0..<30])
       = Inr (Fin 100)"
proof -
  have w: "wf_ndarray2 (eye 30)"
    by (simp add: wf_ndarray2_def eye_def list_all_iff)
  have m: "\<forall>c<ncols (eye 30). strict_mono (\<lambda>x :: rat. 2 * x + of_nat c)"
    by (simp add: strict_mono_def)
  have v: "klue_re_auprc (eye 30) (map int [0..<30]) = Inr (Fin 100)"
    by code_simp
  have e: "klue_re_auprc (rescale (\<lambda>c x. 2 * x + of_nat c) (eye 30)) (map int [0..<30])
      = klue_re_auprc (eye 30) (map int [0..<30])"
    using w m by (rule klue_re_auprc_rescale)
  from e v have "klue_re_auprc (rescale (\<lambda>c x. 2 * x + of_nat c) (eye 30)) (map int [0..<30])
      = Inr (Fin 100)"
    by (rule trans)
  with w e show ?thesis
    by (intro conjI)
qed

text \<open>
  Claim C10, as stated, fails: the labels need not lie in \<open>[0, 30)\<close> for \<open>klue_re_auprc\<close>
  to return a value. The label \<open>-1\<close> is outside \<open>[0, 30)\<close>, the one-hot encoding reads it
  as the last row of the identity matrix, the row of class 29, and no exception is
  raised.
\<close>

theorem klue_re_auprc_negative_label:
  "\<not> isl (klue_re_auprc
      \<lparr>ncols = 30,
       rows = [[0, 0, 0, 0, 0, 0, 0, 0, 0, 0, 0, 0, 0, 0, 0,
                0, 0, 0, 0, 0, 0, 0, 0, 0, 0, 0, 0, 0, 0, 1]]\<rparr> [- 1])
   \<and> map_sum id rows (index_rows (eye 30) [- 1])
       = Inr [[0, 0, 0, 0, 0, 0, 0, 0, 0, 0, 0, 0, 0, 0, 0,
               0, 0, 0, 0, 0, 0, 0, 0, 0, 0, 0, 0, 0, 0, 1]]
   \<and> \<not> (0 \<le> (- 1 :: int) \<and> (- 1 :: int) < 30)"
proof -
  have "\<not> isl (klue_re_auprc
      \<lparr>ncols = 30,
       rows = [[0, 0, 0, 0, 0, 0, 0, 0, 0, 0, 0, 0, 0, 0, 0,
                0, 0, 0, 0, 0, 0, 0, 0, 0, 0, 0, 0, 0, 0, 1]]\<rparr> [- 1])"
    by code_simp
  moreover have "map_sum id rows (index_rows (eye 30) [- 1])
       = Inr [[0, 0, 0, 0, 0, 0, 0, 0, 0, 0, 0, 0, 0, 0, 0,
               0, 0, 0, 0, 0, 0, 0, 0, 0, 0, 0, 0, 0, 0, 1]]"
    by code_simp
  ultimately show ?thesis by simp
qed

text \<open>
  Claim C10, amended. \<open>klue_re_auprc\<close> encodes the labels against the 30-by-30 identity
  matrix, where a negative index counts from the end. A label below \<open>-30\<close> or of 30 or
  more makes the one-hot encoding, and with it \<open>klue_re_auprc\<close>, fail with \<open>IndexError\<close>;
  when every label lies in \<open>[-30, 30)\<close> the encoding succeeds. So \<open>klue_re_auprc\<close> returns
  a value only if every label lies in \<open>[-30, 30)\<close>, and it does return one for such
  labels when the batch is not empty, has one row of scores per label and at least 30
  columns.
\<close>

theorem klue_re_auprc_label_range:
  "((\<exists>l\<in>set labels. l < - 30 \<or> 30 \<le> l) \<longrightarrow>
      index_rows (eye 30) labels = Inl IndexError
      \<and> klue_re_auprc probs labels = Inl IndexError)
   \<and> ((\<forall>l\<in>set labels. - 30 \<le> l \<and> l < 30) \<longrightarrow> \<not> isl (index_rows (eye 30) labels))
   \<and> (\<forall>v. klue_re_auprc probs labels = Inr v \<longrightarrow> (\<forall>l\<in>set labels. - 30 \<le> l \<and> l < 30))
   \<and> ((\<forall>l\<in>set labels. - 30 \<le> l \<and> l < 30) \<and> labels \<noteq> []
        \<and> length (rows probs) = length labels \<and> 30 \<le> ncols probs \<longrightarrow>
      \<not> isl (klue_re_auprc probs labels))"
proof (intro conjI impI allI)
  assume "\<exists>l\<in>set labels. l < - 30 \<or> 30 \<le> l"
  then obtain l where "l \<in> set labels" and "l < - 30 \<or> 30 \<le> l"
    by blast
  then have n: "\<not> list_all (\<lambda>l. - 30 \<le> l \<and> l < 30) labels"
    by (force simp: list_all_iff)
  then show "index_rows (eye 30) labels = Inl IndexError"
    by (simp add: index_rows_eye30)
  from n show "klue_re_auprc probs labels = Inl IndexError"
    by (rule klue_re_auprc_index_error)
next
  assume "\<forall>l\<in>set labels. - 30 \<le> l \<and> l < 30"
  then show "\<not> isl (index_rows (eye 30) labels)"
    by (simp add: index_rows_eye30 list_all_iff)
next
  fix v assume v: "klue_re_auprc probs labels = Inr v"
  show "\<forall>l\<in>set labels. - 30 \<le> l \<and> l < 30"
  proof (rule ccontr)
    assume "\<not> (\<forall>l\<in>set labels. - 30 \<le> l \<and> l < 30)"
    then have "\<not> list_all (\<lambda>l. - 30 \<le> l \<and> l < 30) labels"
      by (simp add: list_all_iff)
    then have "klue_re_auprc probs labels = Inl IndexError"
      by (rule klue_re_auprc_index_error)
    with v show False by simp
  qed
next
  assume a: "(\<forall>l\<in>set labels. - 30 \<le> l \<and> l < 30) \<and> labels \<noteq> []
        \<and> length (rows probs) = length labels \<and> 30 \<le> ncols probs"
  then have "list_all (\<lambda>l. - 30 \<le> l \<and> l < 30) labels"
    by (simp add: list_all_iff)
  with a show "\<not> isl (klue_re_auprc probs labels)"
    by (simp add: klue_re_auprc_value)
qed

theorem klue_re_auprc_label_range_witness:
  "klue_re_auprc
      \<lparr>ncols = 30,
       rows = [[1, 0, 0, 0, 0, 0, 0, 0, 0, 0, 0, 0, 0, 0, 0,
                0, 0, 0, 0, 0, 0, 0, 0, 0, 0, 0, 0, 0, 0, 0]]\<rparr> [30] = Inl IndexError
   \<and> \<not> isl (klue_re_auprc
      \<lparr>ncols = 30,
       rows = [[1, 0, 0, 0, 0, 0, 0, 0, 0, 0, 0, 0, 0, 0, 0,
                0, 0, 0, 0, 0, 0, 0, 0, 0, 0, 0, 0, 0, 0, 0]]\<rparr> [- 30])"
  using klue_re_auprc_label_range
      [of "[30]" "\<lparr>ncols = 30,
       rows = [[1, 0, 0, 0, 0, 0, 0, 0, 0, 0, 0, 0, 0, 0, 0,
                0, 0, 0, 0, 0, 0, 0, 0, 0, 0, 0, 0, 0, 0, 0]]\<rparr>"]
    klue_re_auprc_label_range
      [of "[- 30]" "\<lparr>ncols = 30,
       rows = [[1, 0, 0, 0, 0, 0, 0, 0, 0, 0, 0, 0, 0, 0, 0,
                0, 0, 0, 0, 0, 0, 0, 0, 0, 0, 0, 0, 0, 0, 0]]\<rparr>"]
  by simp

section \<open>Properties of the accuracy\<close>

lemma argmax_aux_spec:
  assumes "bi < length pre" and "bv = pre ! bi" and "\<forall>j<length pre. pre ! j \<le> bv"
    and "\<forall>j<bi. pre ! j < bv" and "i = length pre"
  shows "argmax_aux bi bv i xs < length (pre @ xs)
       \<and> (\<forall>j<length (pre @ xs). (pre @ xs) ! j \<le> (pre @ xs) ! argmax_aux bi bv i xs)
       \<and> (\<forall>j<argmax_aux bi bv i xs. (pre @ xs) ! j < (pre @ xs) ! argmax_aux bi bv i xs)"
  using assms
proof (induction xs arbitrary: pre bi bv i)
  case Nil
  then show ?case by simp
next
  case (Cons x xs)
  show ?case
  proof (cases "bv < x")
    case True
    have "argmax_aux i x (Suc i) xs < length ((pre @ [x]) @ xs)
       \<and> (\<forall>j<length ((pre @ [x]) @ xs). ((pre @ [x]) @ xs) ! j \<le> ((pre @ [x]) @ xs) ! argmax_aux i x (Suc i) xs)
       \<and> (\<forall>j<argmax_aux i x (Suc i) xs. ((pre @ [x]) @ xs) ! j < ((pre @ [x]) @ xs) ! argmax_aux i x (Suc i) xs)"
    proof (rule Cons.IH)
      show "i < length (pre @ [x])" using Cons.prems(5) by simp
      show "x = (pre @ [x]) ! i" using Cons.prems(5) by simp
      show "\<forall>j<length (pre @ [x]). (pre @ [x]) ! j \<le> x"
        using Cons.prems(3) True by (auto simp: nth_append less_Suc_eq intro: less_imp_le order_trans)
      show "\<forall>j<i. (pre @ [x]) ! j < x"
        using Cons.prems(3,5) True by (auto simp: nth_append intro: le_less_trans)
      show "Suc i = length (pre @ [x])" using Cons.prems(5) by simp
    qed
    with True show ?thesis by simp
  next
    case False
    have "argmax_aux bi bv (Suc i) xs < length ((pre @ [x]) @ xs)
       \<and> (\<forall>j<length ((pre @ [x]) @ xs). ((pre @ [x]) @ xs) ! j \<le> ((pre @ [x]) @ xs) ! argmax_aux bi bv (Suc i) xs)
       \<and> (\<forall>j<argmax_aux bi bv (Suc i) xs. ((pre @ [x]) @ xs) ! j < ((pre @ [x]) @ xs) ! argmax_aux bi bv (Suc i) xs)"
    proof (rule Cons.IH)
      show "bi < length (pre @ [x])" using Cons.prems(1) by simp
      show "bv = (pre @ [x]) ! bi" using Cons.prems(1,2) by (simp add: nth_append)
      show "\<forall>j<length (pre @ [x]). (pre @ [x]) ! j \<le> bv"
        using Cons.prems(3) False by (auto simp: nth_append less_Suc_eq)
      show "\<forall>j<bi. (pre @ [x]) ! j < bv"
        using Cons.prems(1,4) by (auto simp: nth_append)
      show "Suc i = length (pre @ [x])" using Cons.prems(5) by simp
    qed
    with False show ?thesis by simp
  qed
qed

lemma argmax_row_first_max:
  assumes "r \<noteq> []"
  shows "argmax_row r < length r
       \<and> (\<forall>j<length r. r ! j \<le> r ! argmax_row r)
       \<and> (\<forall>j<argmax_row r. r ! j < r ! argmax_row r)"
proof -
  obtain x xs where r: "r = x # xs" using assms by (cases r) auto
  show ?thesis
    using argmax_aux_spec [of 0 "[x]" x 1 xs] by (simp add: r argmax_row_def)
qed

lemma length_filter_zip_eq_card:
  assumes "length xs = length ys"
  shows "length (filter (\<lambda>(t, p). t = p) (zip xs (map f ys)))
       = card {i. i < length xs \<and> f (ys ! i) = xs ! i}"
proof -
  have "length (filter (\<lambda>(t, p). t = p) (zip xs (map f ys)))
      = card {i. i < length (zip xs (map f ys)) \<and> (\<lambda>(t, p). t = p) (zip xs (map f ys) ! i)}"
    by (rule length_filter_conv_card)
  also have "{i. i < length (zip xs (map f ys)) \<and> (\<lambda>(t, p). t = p) (zip xs (map f ys) ! i)}
      = {i. i < length xs \<and> f (ys ! i) = xs ! i}"
    using assms by auto
  finally show ?thesis .
qed

lemma length_filter_upt_eq_card:
  "length (filter P [0..<n]) = card {i. i < n \<and> P i}"
proof -
  have "length (filter P [0..<n]) = card {i. i < length [0..<n] \<and> P ([0..<n] ! i)}"
    by (rule length_filter_conv_card)
  also have "{i. i < length [0..<n] \<and> P ([0..<n] ! i)} = {i. i < n \<and> P i}"
    by auto
  finally show ?thesis .
qed

lemma accuracy_score_argmax:
  assumes "length labels = length score_rows" and "labels \<noteq> []"
  shows "accuracy_score labels (map (\<lambda>r. int (argmax_row r)) score_rows)
       = Inr (Fin (of_nat (argmax_matches score_rows labels) / of_nat (length labels)))"
  using assms
  by (simp add: accuracy_score_def argmax_matches_def length_filter_zip_eq_card
      length_filter_upt_eq_card)

lemma klue_re_auprc_empty: "klue_re_auprc probs [] = Inl ValueError \<or> klue_re_auprc probs [] = Inl IndexError"
proof -
  have "score_loop \<lparr>ncols = 30, rows = []\<rparr> probs (0 # [Suc 0..<30]) = Inl ValueError
      \<or> score_loop \<lparr>ncols = 30, rows = []\<rparr> probs (0 # [Suc 0..<30]) = Inl IndexError"
    by (simp add: take_col_def precision_recall_curve_def binary_targets_ok_def)
  moreover have "[0..<30] = 0 # [Suc 0..<30]"
    by (simp add: upt_conv_Cons)
  ultimately show ?thesis
    by (auto simp: klue_re_auprc_def index_rows_eye30)
qed

lemma compute_metrics_ok:
  assumes "compute_metrics pred = Inr m"
  shows "label_ids pred \<noteq> [] \<and> length (rows (predictions pred)) = length (label_ids pred)
       \<and> accuracy m = Fin (of_nat (argmax_matches (rows (predictions pred)) (label_ids pred))
                        / of_nat (length (label_ids pred)))"
proof -
  from assms obtain preds f1 auprc_v acc where
    p: "argmax_last (predictions pred) = Inr preds"
    and f: "klue_re_micro_f1 preds (label_ids pred) = Inr f1"
    and a: "klue_re_auprc (predictions pred) (label_ids pred) = Inr auprc_v"
    and s: "accuracy_score (label_ids pred) preds = Inr acc"
    and m: "m = \<lparr>micro_f1_score = f1, auprc = auprc_v, accuracy = acc\<rparr>"
    by (auto simp: compute_metrics_def Let_def split: sum.splits)
  have ne: "label_ids pred \<noteq> []"
    using a klue_re_auprc_empty [of "predictions pred"] by auto
  have preds: "preds = map (\<lambda>r. int (argmax_row r)) (rows (predictions pred))"
    using p by (simp add: argmax_last_def split: if_splits)
  have len: "length (label_ids pred) = length (rows (predictions pred))"
    using s preds by (simp add: accuracy_score_def split: if_splits)
  have "acc = Fin (of_nat (argmax_matches (rows (predictions pred)) (label_ids pred))
                        / of_nat (length (label_ids pred)))"
    using s accuracy_score_argmax [OF len ne] by (simp add: preds)
  with ne len m show ?thesis by simp
qed

lemma compute_metrics_total:
  assumes "eval_batch (predictions pred) (label_ids pred)"
  shows "\<exists>m. compute_metrics pred = Inr m"
proof -
  let ?labels = "label_ids pred" and ?probs = "predictions pred"
  let ?preds = "map (\<lambda>r. int (argmax_row r)) (rows ?probs)"
  from assms have ne: "?labels \<noteq> []" and len: "length (rows ?probs) = length ?labels"
    and nc: "ncols ?probs = 30" and rng: "list_all (\<lambda>l. 0 \<le> l \<and> l < 30) ?labels"
    by (simp_all add: eval_batch_def)
  have p: "argmax_last ?probs = Inr ?preds"
    using nc by (simp add: argmax_last_def)
  have "length ?labels = length ?preds" using len by simp
  then have f: "\<exists>f1. klue_re_micro_f1 ?preds ?labels = Inr f1"
    by (simp add: klue_re_micro_f1_unfold f1_score_micro_reference distinct_relation_classes)
  have rng': "list_all (\<lambda>l. - 30 \<le> l \<and> l < 30) ?labels"
    using rng by (auto simp: list_all_iff)
  have a: "\<exists>v. klue_re_auprc ?probs ?labels = Inr v"
    using klue_re_auprc_value [OF ne len rng'] nc by simp
  have s: "\<exists>acc. accuracy_score ?labels ?preds = Inr acc"
    using accuracy_score_argmax [OF len [symmetric] ne] by simp
  from p f a s show ?thesis
    by (auto simp: compute_metrics_def Let_def)
qed

text \<open>
  Claim C8. Whenever \<open>compute_metrics\<close> returns, its accuracy is the number of examples
  at which the argmax of the scores equals the true label, divided by the number of
  examples, which is not zero; the count is over all classes and does not look at
  \<open>no_relation\<close>. For an evaluation batch \<open>compute_metrics\<close> does return, and the argmax
  of a row is the index of its first maximum among the 30 scores.
\<close>

theorem compute_metrics_accuracy:
  "(\<forall>m. compute_metrics pred = Inr m \<longrightarrow>
        label_ids pred \<noteq> []
        \<and> accuracy m = Fin (of_nat (argmax_matches (rows (predictions pred)) (label_ids pred))
                           / of_nat (length (label_ids pred))))
   \<and> (eval_batch (predictions pred) (label_ids pred) \<longrightarrow>
        (\<exists>m. compute_metrics pred = Inr m)
        \<and> (\<forall>r\<in>set (rows (predictions pred)).
              argmax_row r < 30
              \<and> (\<forall>j<30. r ! j \<le> r ! argmax_row r)
              \<and> (\<forall>j<argmax_row r. r ! j < r ! argmax_row r)))"
proof -
  have ok: "\<forall>m. compute_metrics pred = Inr m \<longrightarrow>
        label_ids pred \<noteq> []
        \<and> accuracy m = Fin (of_nat (argmax_matches (rows (predictions pred)) (label_ids pred))
                           / of_nat (length (label_ids pred)))"
    using compute_metrics_ok [of pred] by blast
  have total: "eval_batch (predictions pred) (label_ids pred) \<longrightarrow>
        (\<exists>m. compute_metrics pred = Inr m)"
    using compute_metrics_total [of pred] by blast
  have argmax: "eval_batch (predictions pred) (label_ids pred) \<longrightarrow>
        (\<forall>r\<in>set (rows (predictions pred)).
              argmax_row r < 30
              \<and> (\<forall>j<30. r ! j \<le> r ! argmax_row r)
              \<and> (\<forall>j<argmax_row r. r ! j < r ! argmax_row r))"
  proof (intro impI ballI)
    fix r assume b: "eval_batch (predictions pred) (label_ids pred)"
      and r: "r \<in> set (rows (predictions pred))"
    then have len: "length r = 30"
      by (auto simp: eval_batch_def wf_ndarray2_def list_all_iff)
    then have "r \<noteq> []" by auto
    from argmax_row_first_max [OF this] len
    show "argmax_row r < 30
        \<and> (\<forall>j<30. r ! j \<le> r ! argmax_row r)
        \<and> (\<forall>j<argmax_row r. r ! j < r ! argmax_row r)"
      by simp
  qed
  from ok total argmax show ?thesis by blast
qed

theorem compute_metrics_accuracy_witness:
  "eval_batch
      \<lparr>ncols = 30,
       rows = [[1, 0, 0, 0, 0, 0, 0, 0, 0, 0, 0, 0, 0, 0, 0,
                0, 0, 0, 0, 0, 0, 0, 0, 0, 0, 0, 0, 0, 0, 0],
               [1, 0, 0, 0, 0, 0, 0, 0, 0, 0, 0, 0, 0, 0, 0,
                0, 0, 0, 0, 0, 0, 0, 0, 0, 0, 0, 0, 0, 0, 0]]\<rparr> [0, 2]
   \<and> map_sum id accuracy (compute_metrics
      \<lparr>label_ids = [0, 2],
       predictions = \<lparr>ncols = 30,
         rows = [[1, 0, 0, 0, 0, 0, 0, 0, 0, 0, 0, 0, 0, 0, 0,
                  0, 0, 0, 0, 0, 0, 0, 0, 0, 0, 0, 0, 0, 0, 0],
                 [1, 0, 0, 0, 0, 0, 0, 0, 0, 0, 0, 0, 0, 0, 0,
                  0, 0, 0, 0, 0, 0, 0, 0, 0, 0, 0, 0, 0, 0, 0]]\<rparr>\<rparr>) = Inr (Fin (1 / 2))
   \<and> map_sum id micro_f1_score (compute_metrics
      \<lparr>label_ids = [0, 2],
       predictions = \<lparr>ncols = 30,
         rows = [[1, 0, 0, 0, 0, 0, 0, 0, 0, 0, 0, 0, 0, 0, 0,
                  0, 0, 0, 0, 0, 0, 0, 0, 0, 0, 0, 0, 0, 0, 0],
                 [1, 0, 0, 0, 0, 0, 0, 0, 0, 0, 0, 0, 0, 0, 0,
                  0, 0, 0, 0, 0, 0, 0, 0, 0, 0, 0, 0, 0, 0, 0]]\<rparr>\<rparr>) = Inr 0
   \<and> argmax_matches
       [[1, 0, 0, 0, 0, 0, 0, 0, 0, 0, 0, 0, 0, 0, 0,
         0, 0, 0, 0, 0, 0, 0, 0, 0, 0, 0, 0, 0, 0, 0],
        [1, 0, 0, 0, 0, 0, 0, 0, 0, 0, 0, 0, 0, 0, 0,
         0, 0, 0, 0, 0, 0, 0, 0, 0, 0, 0, 0, 0, 0, 0]] [0, 2] = 1"
proof -
  let ?P = "\<lparr>ncols = 30,
       rows = [[1, 0, 0, 0, 0, 0, 0, 0, 0, 0, 0, 0, 0, 0, 0,
                0, 0, 0, 0, 0, 0, 0, 0, 0, 0, 0, 0, 0, 0, 0],
               [1, 0, 0, 0, 0, 0, 0, 0, 0, 0, 0, 0, 0, 0, 0,
                0, 0, 0, 0, 0, 0, 0, 0, 0, 0, 0, 0, 0, 0, 0 :: rat]]\<rparr>"
  have b: "eval_batch ?P [0, 2]"
    by code_simp
  have a: "map_sum id accuracy (compute_metrics \<lparr>label_ids = [0, 2], predictions = ?P\<rparr>)
      = Inr (Fin (1 / 2))"
    by code_simp
  have f: "map_sum id micro_f1_score (compute_metrics \<lparr>label_ids = [0, 2], predictions = ?P\<rparr>)
      = Inr 0"
    by code_simp
  from b compute_metrics_accuracy [of "\<lparr>label_ids = [0, 2], predictions = ?P\<rparr>"]
  obtain m where m: "compute_metrics \<lparr>label_ids = [0, 2], predictions = ?P\<rparr> = Inr m"
    and acc: "accuracy m = Fin (of_nat (argmax_matches (rows ?P) [0, 2]) / of_nat (length [0, 2 :: int]))"
    by auto
  from a m acc have "rat_of_nat (argmax_matches (rows ?P) [0, 2]) / 2 = 1 / 2"
    by simp
  then have "argmax_matches (rows ?P) [0, 2] = 1"
    by simp
  with b a f show ?thesis by simp
qed

end
